theory Spec2Isabelle
  imports Complex_Main "HOL-Library.AList" "HOL-Library.Product_Lexorder"
begin

section \<open>Data model\<close>

text \<open>
  The shared record types of \<^verbatim>\<open>providers/provider.ts\<close>. A TypeScript \<^verbatim>\<open>number\<close>
  that carries a price or a duration is modelled as a \<open>real\<close>: comparison and
  subtraction are those of the finite IEEE doubles, and \<^verbatim>\<open>NaN\<close> and the infinities
  are outside the model. Strings are \<open>char list\<close>; a \<^verbatim>\<open>FlightSource\<close> is one of six
  string literals at run time and is kept as a string. The field \<^verbatim>\<open>id\<close> is renamed
  \<open>flight_id\<close>, since \<open>id\<close> is the identity function of HOL.
\<close>

type_synonym FlightSource = string

record NormalizedFlight =
  flight_id :: string
  source :: FlightSource
  airline :: string
  airline_code :: string
  flight_number :: string
  origin :: string
  destination :: string
  departure_time :: string
  arrival_time :: string
  duration_minutes :: real
  stops :: real
  price :: real
  currency :: string
  deep_link :: "string option"
  cabin_class :: string
  baggage_included :: bool

text \<open>
  \<^verbatim>\<open>ExploreResult\<close> shares field names with \<^verbatim>\<open>NormalizedFlight\<close>; its fields carry the
  prefix \<open>e_\<close> here.
\<close>

record ExploreResult =
  e_destination :: string
  e_destination_name :: string
  e_price :: real
  e_currency :: string
  e_departure_date :: string
  e_return_date :: string
  e_source :: FlightSource
  e_deep_link :: "string option"

section \<open>The insertion-ordered Map of JavaScript\<close>

text \<open>
  A JavaScript \<^verbatim>\<open>Map\<close> iterates in the order in which its keys were first inserted;
  \<^verbatim>\<open>set\<close> on a key that is present replaces the value and keeps the position. An
  association list with \<open>AList.update\<close> (replace in place, else append) is that
  structure; \<^verbatim>\<open>get\<close> is \<open>map_of\<close> and \<^verbatim>\<open>[...m.values()]\<close> is \<open>map snd\<close>.
\<close>

type_synonym ('k, 'v) js_map = "('k \<times> 'v) list"

definition Map_get :: "('k, 'v) js_map \<Rightarrow> 'k \<Rightarrow> 'v option" where
  "Map_get m k = map_of m k"

definition Map_set :: "('k, 'v) js_map \<Rightarrow> 'k \<Rightarrow> 'v \<Rightarrow> ('k, 'v) js_map" where
  "Map_set m k v = AList.update k v m"

definition Map_values :: "('k, 'v) js_map \<Rightarrow> 'v list" where
  "Map_values m = map snd m"

section \<open>FlightAggregator.deduplicate\<close>

text \<open>
  The key of the source is the template string
  \<^verbatim>\<open>`${airline_code}-${flight_number}-${depDate}-${origin}-${destination}`\<close> with
  \<^verbatim>\<open>depDate = departure_time.slice(0, 10)\<close>.
\<close>

definition dedupe_key :: "NormalizedFlight \<Rightarrow> string" where
  "dedupe_key f =
     airline_code f @ ''-'' @ flight_number f @ ''-'' @ take 10 (departure_time f)
       @ ''-'' @ origin f @ ''-'' @ destination f"

text \<open>One iteration of the loop over \<^verbatim>\<open>flights\<close>.\<close>

definition deduplicate_step ::
  "(string, NormalizedFlight) js_map \<Rightarrow> NormalizedFlight \<Rightarrow> (string, NormalizedFlight) js_map"
where
  "deduplicate_step seen f =
     (let key = dedupe_key f in
      case Map_get seen key of
        None \<Rightarrow> Map_set seen key f
      | Some existing \<Rightarrow> if price f < price existing then Map_set seen key f else seen)"

definition deduplicate :: "NormalizedFlight list \<Rightarrow> NormalizedFlight list" where
  "deduplicate flights = Map_values (foldl deduplicate_step [] flights)"

text \<open>
  The composite key the specification speaks of: the five fields as a tuple, the
  departure time cut to its calendar day.
\<close>

definition composite_key ::
  "NormalizedFlight \<Rightarrow> string \<times> string \<times> string \<times> string \<times> string" where
  "composite_key f =
     (airline_code f, flight_number f, take 10 (departure_time f), origin f, destination f)"

section \<open>Array.prototype.sort\<close>

text \<open>
  \<^verbatim>\<open>Array.prototype.sort\<close> with a comparison function is stable (ECMAScript 2019) and
  orders \<open>a\<close> before \<open>b\<close> when the comparison is negative. For a comparison function
  that is a total preorder the stable result is unique; it is computed here by
  insertion from the right, which puts an element before the first one it does not
  exceed.
\<close>

fun insert_by :: "('a \<Rightarrow> 'a \<Rightarrow> real) \<Rightarrow> 'a \<Rightarrow> 'a list \<Rightarrow> 'a list" where
  "insert_by cmp x [] = [x]"
| "insert_by cmp x (y # ys) =
     (if cmp x y \<le> 0 then x # y # ys else y # insert_by cmp x ys)"

definition Array_sort :: "('a \<Rightarrow> 'a \<Rightarrow> real) \<Rightarrow> 'a list \<Rightarrow> 'a list" where
  "Array_sort cmp xs = foldr (insert_by cmp) xs []"

text \<open>The comparison function of \<^verbatim>\<open>searchFlights\<close>.\<close>

definition compare_flights :: "NormalizedFlight \<Rightarrow> NormalizedFlight \<Rightarrow> real" where
  "compare_flights a b =
     (if price a \<noteq> price b then price a - price b
      else duration_minutes a - duration_minutes b)"

text \<open>The comparison function of \<^verbatim>\<open>exploreDestinations\<close>.\<close>

definition compare_destinations :: "ExploreResult \<Rightarrow> ExploreResult \<Rightarrow> real" where
  "compare_destinations a b = e_price a - e_price b"

section \<open>JSON.stringify and TTLCache.buildKey\<close>

text \<open>
  The values \<^verbatim>\<open>JSON.stringify\<close> is applied to in this program: the operation tag (a
  string), the request object and the optional array of source names. An object is
  the list of its own properties in insertion order, which is the order in which
  \<^verbatim>\<open>JSON.stringify\<close> writes them (the property names of the requests are not
  integer-like, so no reordering applies). Numbers are the integers; the textual form
  of a fractional \<^verbatim>\<open>number\<close> is outside the model.
\<close>

datatype json =
    JUndefined
  | JNull
  | JBool bool
  | JNum int
  | JStr string
  | JArr "json list"
  | JObj "(string \<times> json) list"

fun show_nat :: "nat \<Rightarrow> string" where
  "show_nat n =
     (if n < 10 then [char_of (48 + n)]
      else show_nat (n div 10) @ [char_of (48 + n mod 10)])"

definition show_int :: "int \<Rightarrow> string" where
  "show_int i = (if i < 0 then ''-'' @ show_nat (nat (- i)) else show_nat (nat i))"

definition hex_digit :: "nat \<Rightarrow> char" where
  "hex_digit n = ''0123456789abcdef'' ! (n mod 16)"

text \<open>
  \<^verbatim>\<open>QuoteJSONString\<close>: the double quote and the backslash are escaped with a backslash,
  the control characters below \<open>0x20\<close> by their short form or by \<^verbatim>\<open>\u00XX\<close>.
\<close>

definition quote_char :: "char \<Rightarrow> string" where
  "quote_char c =
     (if c = CHR 0x08 then [CHR 0x5C, CHR ''b'']
      else if c = CHR 0x09 then [CHR 0x5C, CHR ''t'']
      else if c = CHR 0x0A then [CHR 0x5C, CHR ''n'']
      else if c = CHR 0x0C then [CHR 0x5C, CHR ''f'']
      else if c = CHR 0x0D then [CHR 0x5C, CHR ''r'']
      else if c = CHR 0x22 then [CHR 0x5C, CHR 0x22]
      else if c = CHR 0x5C then [CHR 0x5C, CHR 0x5C]
      else if of_char c < (32::nat) then
        [CHR 0x5C, CHR ''u'', CHR ''0'', CHR ''0'',
         hex_digit (of_char c div 16), hex_digit (of_char c mod 16)]
      else [c])"

definition quote_string :: "string \<Rightarrow> string" where
  "quote_string s = [CHR 0x22] @ concat (map quote_char s) @ [CHR 0x22]"

text \<open>\<^verbatim>\<open>Array.prototype.join\<close> on strings.\<close>

fun join :: "string \<Rightarrow> string list \<Rightarrow> string" where
  "join sep [] = []"
| "join sep [x] = x"
| "join sep (x # y # ys) = x @ sep @ join sep (y # ys)"

text \<open>
  \<^verbatim>\<open>JSON.stringify\<close> returns \<^verbatim>\<open>undefined\<close> (here \<open>None\<close>) for \<^verbatim>\<open>undefined\<close>; inside an
  array \<^verbatim>\<open>undefined\<close> is written \<^verbatim>\<open>null\<close>, and a property whose value is \<^verbatim>\<open>undefined\<close>
  is left out of its object.
\<close>

fun JSON_stringify :: "json \<Rightarrow> string option" where
  "JSON_stringify JUndefined = None"
| "JSON_stringify JNull = Some ''null''"
| "JSON_stringify (JBool b) = Some (if b then ''true'' else ''false'')"
| "JSON_stringify (JNum n) = Some (show_int n)"
| "JSON_stringify (JStr s) = Some (quote_string s)"
| "JSON_stringify (JArr xs) =
     Some (''['' @ join '',''
        (map (\<lambda>x. case JSON_stringify x of None \<Rightarrow> ''null'' | Some t \<Rightarrow> t) xs) @ '']'')"
| "JSON_stringify (JObj fs) =
     Some (''{'' @ join '',''
        (concat (map (\<lambda>kv. case JSON_stringify (snd kv) of
                               None \<Rightarrow> []
                             | Some t \<Rightarrow> [quote_string (fst kv) @ '':'' @ t]) fs)) @ ''}'')"

text \<open>
  \<^verbatim>\<open>buildKey(...parts)\<close> is \<^verbatim>\<open>parts.map((p) => JSON.stringify(p)).join(":")\<close>;
  \<^verbatim>\<open>join\<close> writes an \<^verbatim>\<open>undefined\<close> element as the empty string.
\<close>

definition TTLCache_buildKey :: "json list \<Rightarrow> string" where
  "TTLCache_buildKey parts =
     join '':'' (map (\<lambda>p. case JSON_stringify p of None \<Rightarrow> [] | Some t \<Rightarrow> t) parts)"

section \<open>TTLCache\<close>

text \<open>
  Times are the integer milliseconds of \<^verbatim>\<open>Date.now()\<close>, passed in by the caller. The
  store is never iterated, so it is a plain map. The field \<^verbatim>\<open>value\<close> of \<^verbatim>\<open>CacheEntry\<close>
  is named \<open>entry_value\<close>.
\<close>

record 'v CacheEntry =
  entry_value :: 'v
  expires_at :: int

record 'v TTLCache =
  store :: "string \<rightharpoonup> 'v CacheEntry"
  default_ttl_ms :: int

definition TTLCache_new :: "int \<Rightarrow> 'v TTLCache" where
  "TTLCache_new ttl_seconds = \<lparr>store = Map.empty, default_ttl_ms = ttl_seconds * 1000\<rparr>"

definition TTLCache_get :: "'v TTLCache \<Rightarrow> int \<Rightarrow> string \<Rightarrow> 'v option \<times> 'v TTLCache" where
  "TTLCache_get c now key =
     (case store c key of
        None \<Rightarrow> (None, c)
      | Some entry \<Rightarrow>
          if now > expires_at entry then (None, c\<lparr>store := (store c)(key := None)\<rparr>)
          else (Some (entry_value entry), c))"

definition TTLCache_set :: "'v TTLCache \<Rightarrow> int \<Rightarrow> string \<Rightarrow> 'v \<Rightarrow> int option \<Rightarrow> 'v TTLCache" where
  "TTLCache_set c now key v ttl_ms =
     c\<lparr>store := (store c)(key \<mapsto>
         \<lparr>entry_value = v,
          expires_at = now + (case ttl_ms of None \<Rightarrow> default_ttl_ms c | Some t \<Rightarrow> t)\<rparr>)\<rparr>"

definition TTLCache_clear :: "'v TTLCache \<Rightarrow> 'v TTLCache" where
  "TTLCache_clear c = c\<lparr>store := Map.empty\<rparr>"

section \<open>RateLimiter\<close>

text \<open>
  The token count and the two constructor arguments are \<^verbatim>\<open>number\<close>s, modelled as
  reals; \<^verbatim>\<open>last_refill\<close> holds a reading of \<^verbatim>\<open>Date.now()\<close>, an integer count of
  milliseconds. Every reading of the clock is an argument of the function that takes
  it.
\<close>

record RateLimiter =
  tokens :: real
  last_refill :: int
  max_tokens :: real
  refill_rate :: real

definition RateLimiter_new :: "real \<Rightarrow> real \<Rightarrow> int \<Rightarrow> RateLimiter" where
  "RateLimiter_new max_tokens' refill_rate' now =
     \<lparr>tokens = max_tokens', last_refill = now,
      max_tokens = max_tokens', refill_rate = refill_rate'\<rparr>"

definition refill :: "RateLimiter \<Rightarrow> int \<Rightarrow> RateLimiter" where
  "refill rl now =
     (let elapsed_s = real_of_int (now - last_refill rl) / 1000 in
      rl\<lparr>tokens := min (max_tokens rl) (tokens rl + elapsed_s * refill_rate rl),
         last_refill := now\<rparr>)"

text \<open>
  \<^verbatim>\<open>acquire\<close> is an \<^verbatim>\<open>async\<close> function with one suspension point, the \<^verbatim>\<open>await\<close> on the
  timer. The part before it runs when \<^verbatim>\<open>acquire\<close> is called and either returns or
  suspends with the computed delay; the part after it runs when the timer fires.
  Between the two, other callers of the same limiter may run.
\<close>

datatype acquire_status = Returned RateLimiter | Suspended real RateLimiter

definition acquire_begin :: "RateLimiter \<Rightarrow> int \<Rightarrow> acquire_status" where
  "acquire_begin rl now =
     (let rl1 = refill rl now in
      if tokens rl1 \<ge> 1 then Returned (rl1\<lparr>tokens := tokens rl1 - 1\<rparr>)
      else Suspended (((1 - tokens rl1) / refill_rate rl1) * 1000) rl1)"

definition acquire_resume :: "RateLimiter \<Rightarrow> int \<Rightarrow> RateLimiter" where
  "acquire_resume rl now = (let rl2 = refill rl now in rl2\<lparr>tokens := tokens rl2 - 1\<rparr>)"

text \<open>
  One call of \<^verbatim>\<open>acquire\<close> that nothing interleaves with: \<open>now\<close> is the clock at the
  call, \<open>now'\<close> the clock when the timer has fired (read only on the slow path).
\<close>

definition RateLimiter_acquire :: "RateLimiter \<Rightarrow> int \<Rightarrow> int \<Rightarrow> RateLimiter" where
  "RateLimiter_acquire rl now now' =
     (case acquire_begin rl now of
        Returned rl' \<Rightarrow> rl'
      | Suspended wait_ms rl' \<Rightarrow> acquire_resume rl' now')"

text \<open>A sequence of such calls, each with its two clock readings.\<close>

definition acquire_all :: "RateLimiter \<Rightarrow> (int \<times> int) list \<Rightarrow> RateLimiter" where
  "acquire_all rl ts = foldl (\<lambda>r t. RateLimiter_acquire r (fst t) (snd t)) rl ts"

text \<open>
  Calls that overlap: the limiter sees a sequence of events, each the first part of
  some call or the second part of a call that was suspended.
\<close>

datatype acquire_event = Call int | Wake int

fun acquire_event_step :: "RateLimiter \<Rightarrow> acquire_event \<Rightarrow> RateLimiter" where
  "acquire_event_step rl (Call now) =
     (case acquire_begin rl now of Returned rl' \<Rightarrow> rl' | Suspended wait_ms rl' \<Rightarrow> rl')"
| "acquire_event_step rl (Wake now) = acquire_resume rl now"

definition acquire_events :: "RateLimiter \<Rightarrow> acquire_event list \<Rightarrow> RateLimiter" where
  "acquire_events rl evs = foldl acquire_event_step rl evs"

text \<open>Whether a call made at \<open>now\<close> returns without suspending.\<close>

definition immediate :: "RateLimiter \<Rightarrow> int \<Rightarrow> bool" where
  "immediate rl now = (case acquire_begin rl now of Returned _ \<Rightarrow> True | Suspended _ _ \<Rightarrow> False)"

section \<open>FlightAggregator\<close>

text \<open>
  A provider is seen by the aggregator through its name, its availability and the
  outcome of the promise each of its methods returns: \<^verbatim>\<open>Promise.allSettled\<close> turns a
  rejection into a value and never rejects itself. \<^verbatim>\<open>exploreDestinations\<close> is an
  optional method. The request is the run-time object the caller built, which the
  aggregator serialises for the cache key and hands to the providers.
\<close>

datatype 'a PromiseSettledResult = Fulfilled 'a | Rejected string

record IFlightProvider =
  name :: FlightSource
  isAvailable :: bool
  searchFlights :: "json \<Rightarrow> NormalizedFlight list PromiseSettledResult"
  exploreDestinations :: "(json \<Rightarrow> ExploreResult list PromiseSettledResult) option"

text \<open>
  The aggregator owns one \<^verbatim>\<open>TTLCache\<close> whose values are untyped. The keys of the two
  operations begin with different tags and never coincide (lemma
  \<open>search_key_not_explore_key\<close> below), so the store is kept as two typed stores over
  disjoint sets of keys; both are created with the 300 seconds of the source.
\<close>

record FlightAggregator =
  providers :: "IFlightProvider list"
  cache_flights :: "NormalizedFlight list TTLCache"
  cache_destinations :: "ExploreResult list TTLCache"

definition FlightAggregator_new :: "IFlightProvider list \<Rightarrow> FlightAggregator" where
  "FlightAggregator_new ps =
     \<lparr>providers = ps, cache_flights = TTLCache_new 300, cache_destinations = TTLCache_new 300\<rparr>"

definition getActiveProviders ::
  "FlightAggregator \<Rightarrow> FlightSource list option \<Rightarrow> IFlightProvider list" where
  "getActiveProviders a flt =
     filter (\<lambda>p.
        if \<not> isAvailable p then False
        else if (case flt of None \<Rightarrow> False
                 | Some fl \<Rightarrow> length fl > 0 \<and> name p \<notin> set fl) then False
        else True) (providers a)"

text \<open>The optional \<^verbatim>\<open>sourcesFilter\<close> argument as the value \<^verbatim>\<open>buildKey\<close> receives.\<close>

definition filter_json :: "FlightSource list option \<Rightarrow> json" where
  "filter_json flt = (case flt of None \<Rightarrow> JUndefined | Some fl \<Rightarrow> JArr (map JStr fl))"

text \<open>
  The loop over the settled results of \<^verbatim>\<open>searchFlights\<close>: a fulfilled result is
  appended to \<^verbatim>\<open>flights\<close>, a rejected one adds a line to \<^verbatim>\<open>errors\<close>.
\<close>

fun settle_flights ::
  "(IFlightProvider \<times> NormalizedFlight list PromiseSettledResult) list \<Rightarrow>
     NormalizedFlight list \<Rightarrow> string list \<Rightarrow> NormalizedFlight list \<times> string list" where
  "settle_flights [] flights errors = (flights, errors)"
| "settle_flights ((p, Fulfilled v) # rest) flights errors =
     settle_flights rest (flights @ v) errors"
| "settle_flights ((p, Rejected reason) # rest) flights errors =
     settle_flights rest flights (errors @ [name p @ '': '' @ reason])"

text \<open>
  The result of a call: the array returned, the providers whose method was invoked (in
  call order), the lines given to \<^verbatim>\<open>console.error\<close>, and the aggregator afterwards.
\<close>

record 'a outcome =
  returned :: "'a list"
  invoked :: "FlightSource list"
  logged :: "string list"
  after :: FlightAggregator

text \<open>
  \<open>now_get\<close> and \<open>now_set\<close> are the readings of \<^verbatim>\<open>Date.now()\<close> inside \<^verbatim>\<open>cache.get\<close>
  and \<^verbatim>\<open>cache.set\<close>. The test \<^verbatim>\<open>if (cached)\<close> is on an array, which is truthy also when
  empty.
\<close>

definition FlightAggregator_searchFlights ::
  "FlightAggregator \<Rightarrow> int \<Rightarrow> int \<Rightarrow> json \<Rightarrow> FlightSource list option \<Rightarrow>
     NormalizedFlight outcome" where
  "FlightAggregator_searchFlights a now_get now_set params sourcesFilter =
     (let cacheKey = TTLCache_buildKey [JStr ''search'', params, filter_json sourcesFilter];
          got = TTLCache_get (cache_flights a) now_get cacheKey in
      case fst got of
        Some cached \<Rightarrow>
          \<lparr>returned = cached, invoked = [], logged = [],
           after = a\<lparr>cache_flights := snd got\<rparr>\<rparr>
      | None \<Rightarrow>
          (let active = getActiveProviders a sourcesFilter;
               results = map (\<lambda>p. searchFlights p params) active;
               collected = settle_flights (zip active results) [] [];
               deduped = deduplicate (fst collected);
               sorted = Array_sort compare_flights deduped
           in \<lparr>returned = sorted, invoked = map name active, logged = snd collected,
               after = a\<lparr>cache_flights :=
                          TTLCache_set (snd got) now_set cacheKey sorted None\<rparr>\<rparr>))"

text \<open>The loop over the settled results of \<^verbatim>\<open>exploreDestinations\<close>.\<close>

fun settle_destinations ::
  "ExploreResult list PromiseSettledResult list \<Rightarrow> ExploreResult list \<Rightarrow> ExploreResult list"
where
  "settle_destinations [] destinations = destinations"
| "settle_destinations (Fulfilled v # rest) destinations =
     settle_destinations rest (destinations @ v)"
| "settle_destinations (Rejected reason # rest) destinations =
     settle_destinations rest destinations"

text \<open>One iteration of the loop that fills \<^verbatim>\<open>byDest\<close>.\<close>

definition byDest_step ::
  "(string, ExploreResult) js_map \<Rightarrow> ExploreResult \<Rightarrow> (string, ExploreResult) js_map" where
  "byDest_step byDest d =
     (case Map_get byDest (e_destination d) of
        None \<Rightarrow> Map_set byDest (e_destination d) d
      | Some existing \<Rightarrow>
          if e_price d < e_price existing then Map_set byDest (e_destination d) d
          else byDest)"

text \<open>
  \<^verbatim>\<open>params.limit\<close>: the property \<^verbatim>\<open>limit\<close> of the request object, a \<^verbatim>\<open>number\<close> by the
  interface \<^verbatim>\<open>ExploreParams\<close> (\<open>None\<close> stands for \<^verbatim>\<open>undefined\<close>, a missing property).
\<close>

definition params_limit :: "json \<Rightarrow> int option" where
  "params_limit params =
     (case params of
        JObj fs \<Rightarrow> (case map_of fs ''limit'' of Some (JNum n) \<Rightarrow> Some n | _ \<Rightarrow> None)
      | _ \<Rightarrow> None)"

text \<open>
  \<^verbatim>\<open>xs.slice(0, end)\<close>: a negative \<^verbatim>\<open>end\<close> counts from the end of the array, an
  \<^verbatim>\<open>undefined\<close> one is the length.
\<close>

definition Array_slice0 :: "'a list \<Rightarrow> int option \<Rightarrow> 'a list" where
  "Array_slice0 xs end' =
     (case end' of
        None \<Rightarrow> xs
      | Some e \<Rightarrow> if e < 0 then take (nat (int (length xs) + e)) xs else take (nat e) xs)"

definition FlightAggregator_exploreDestinations ::
  "FlightAggregator \<Rightarrow> int \<Rightarrow> int \<Rightarrow> json \<Rightarrow> FlightSource list option \<Rightarrow>
     ExploreResult outcome" where
  "FlightAggregator_exploreDestinations a now_get now_set params sourcesFilter =
     (let cacheKey = TTLCache_buildKey [JStr ''explore'', params, filter_json sourcesFilter];
          got = TTLCache_get (cache_destinations a) now_get cacheKey in
      case fst got of
        Some cached \<Rightarrow>
          \<lparr>returned = cached, invoked = [], logged = [],
           after = a\<lparr>cache_destinations := snd got\<rparr>\<rparr>
      | None \<Rightarrow>
          (let active = filter (\<lambda>p. exploreDestinations p \<noteq> None)
                          (getActiveProviders a sourcesFilter);
               results = map (\<lambda>p. the (exploreDestinations p) params) active;
               destinations = settle_destinations results [];
               byDest = foldl byDest_step [] destinations;
               sorted = Array_slice0 (Array_sort compare_destinations (Map_values byDest))
                          (params_limit params)
           in \<lparr>returned = sorted, invoked = map name active, logged = [],
               after = a\<lparr>cache_destinations :=
                          TTLCache_set (snd got) now_set cacheKey sorted None\<rparr>\<rparr>))"

section \<open>Notions used to state the properties\<close>

text \<open>The cache keys of the two operations.\<close>

abbreviation search_key :: "json \<Rightarrow> FlightSource list option \<Rightarrow> string" where
  "search_key params flt \<equiv> TTLCache_buildKey [JStr ''search'', params, filter_json flt]"

abbreviation explore_key :: "json \<Rightarrow> FlightSource list option \<Rightarrow> string" where
  "explore_key params flt \<equiv> TTLCache_buildKey [JStr ''explore'', params, filter_json flt]"

text \<open>
  The offers of the providers whose call succeeded, flattened in provider order: the
  candidate set of a search or an exploration.
\<close>

definition successful_offers :: "IFlightProvider list \<Rightarrow> json \<Rightarrow> NormalizedFlight list" where
  "successful_offers ps params =
     concat (map (\<lambda>p. case searchFlights p params of Fulfilled v \<Rightarrow> v | Rejected _ \<Rightarrow> []) ps)"

definition successful_destinations :: "IFlightProvider list \<Rightarrow> json \<Rightarrow> ExploreResult list" where
  "successful_destinations ps params =
     concat (map (\<lambda>p. case exploreDestinations p of
                         None \<Rightarrow> []
                       | Some call \<Rightarrow>
                           (case call params of Fulfilled v \<Rightarrow> v | Rejected _ \<Rightarrow> [])) ps)"

text \<open>The lines logged for the providers whose call failed.\<close>

definition failure_lines :: "IFlightProvider list \<Rightarrow> json \<Rightarrow> string list" where
  "failure_lines ps params =
     concat (map (\<lambda>p. case searchFlights p params of
                         Fulfilled _ \<Rightarrow> []
                       | Rejected reason \<Rightarrow> [name p @ '': '' @ reason]) ps)"

text \<open>
  Both deduplication loops are instances of one step: keep, per key, the entry with
  the smallest price, replacing it only by a strictly cheaper one.
\<close>

definition cheapest_step ::
  "('a \<Rightarrow> 'k) \<Rightarrow> ('a \<Rightarrow> real) \<Rightarrow> ('k \<times> 'a) list \<Rightarrow> 'a \<Rightarrow> ('k \<times> 'a) list" where
  "cheapest_step key pr seen f =
     (case map_of seen (key f) of
        None \<Rightarrow> AList.update (key f) f seen
      | Some e \<Rightarrow> if pr f < pr e then AList.update (key f) f seen else seen)"

text \<open>
  \<open>e\<close> is the first cheapest element of its group in \<open>xs\<close>: nothing in the group is
  cheaper, and everything of the group that comes before \<open>e\<close> is strictly more
  expensive.
\<close>

definition first_cheapest :: "('a \<Rightarrow> 'k) \<Rightarrow> ('a \<Rightarrow> real) \<Rightarrow> 'a list \<Rightarrow> 'a \<Rightarrow> bool" where
  "first_cheapest key pr xs e \<longleftrightarrow>
     (\<forall>g\<in>set xs. key g = key e \<longrightarrow> pr e \<le> pr g) \<and>
     (\<exists>ys zs. xs = ys @ e # zs \<and> (\<forall>g\<in>set ys. key g = key e \<longrightarrow> pr e < pr g))"

definition cheapest_inv ::
  "('a \<Rightarrow> 'k) \<Rightarrow> ('a \<Rightarrow> real) \<Rightarrow> 'a list \<Rightarrow> ('k \<times> 'a) list \<Rightarrow> bool" where
  "cheapest_inv key pr xs seen \<longleftrightarrow>
     distinct (map fst seen) \<and>
     (\<forall>k e. map_of seen k = Some e \<longrightarrow> key e = k \<and> first_cheapest key pr xs e) \<and>
     (\<forall>f\<in>set xs. map_of seen (key f) \<noteq> None)"

text \<open>The order the comparison function of \<^verbatim>\<open>searchFlights\<close> induces: price, then duration.\<close>

definition flight_rank :: "NormalizedFlight \<Rightarrow> real \<times> real" where
  "flight_rank f = (price f, duration_minutes f)"

section \<open>Example data\<close>

text \<open>
  Three offers for one flight (LO 3923 from KRK to BCN on 2025-06-01) at the prices 420,
  390 and 390, as three providers might report it, and one offer for another flight.
\<close>

definition lot_offer :: "FlightSource \<Rightarrow> real \<Rightarrow> real \<Rightarrow> NormalizedFlight" where
  "lot_offer src p d =
     \<lparr>flight_id = src @ ''-1'', source = src, airline = ''LOT'', airline_code = ''LO'',
      flight_number = ''3923'', origin = ''KRK'', destination = ''BCN'',
      departure_time = ''2025-06-01T10:00:00'', arrival_time = ''2025-06-01T13:00:00'',
      duration_minutes = d, stops = 0, price = p, currency = ''PLN'', deep_link = None,
      cabin_class = ''economy'', baggage_included = True\<rparr>"

definition wizz_offer :: NormalizedFlight where
  "wizz_offer =
     \<lparr>flight_id = ''kiwi-2'', source = ''kiwi'', airline = ''Wizz Air'', airline_code = ''W6'',
      flight_number = ''5041'', origin = ''KRK'', destination = ''BCN'',
      departure_time = ''2025-06-01T06:10:00'', arrival_time = ''2025-06-01T09:00:00'',
      duration_minutes = 170, stops = 0, price = 390, currency = ''PLN'', deep_link = None,
      cabin_class = ''economy'', baggage_included = False\<rparr>"

text \<open>
  The offer \<^verbatim>\<open>RyanairProvider.searchFlights\<close> builds for KRK to BCN, whose flight number
  is \<^verbatim>\<open>`FR-${params.origin}-${params.destination}`\<close>, and an offer with another airline
  code and another flight number.
\<close>

definition ryanair_offer :: NormalizedFlight where
  "ryanair_offer =
     \<lparr>flight_id = ''ryanair-KRK-BCN-2025-06-01'', source = ''ryanair'', airline = ''Ryanair'',
      airline_code = ''FR'', flight_number = ''FR-KRK-BCN'', origin = ''KRK'',
      destination = ''BCN'', departure_time = ''2025-06-01T00:00:00.000'',
      arrival_time = ''2025-06-01T00:00:00.000'', duration_minutes = 0, stops = 0,
      price = 199, currency = ''PLN'', deep_link = None, cabin_class = ''economy'',
      baggage_included = False\<rparr>"

definition other_offer :: NormalizedFlight where
  "other_offer =
     \<lparr>flight_id = ''kiwi-7'', source = ''kiwi'', airline = ''Other'',
      airline_code = ''FR-FR'', flight_number = ''KRK-BCN'', origin = ''KRK'',
      destination = ''BCN'', departure_time = ''2025-06-01T18:30:00'',
      arrival_time = ''2025-06-01T21:30:00'', duration_minutes = 180, stops = 0,
      price = 250, currency = ''PLN'', deep_link = None, cabin_class = ''economy'',
      baggage_included = False\<rparr>"

text \<open>A provider without \<^verbatim>\<open>exploreDestinations\<close> whose search settles as given.\<close>

definition search_provider ::
  "FlightSource \<Rightarrow> NormalizedFlight list PromiseSettledResult \<Rightarrow> IFlightProvider" where
  "search_provider n r =
     \<lparr>name = n, isAvailable = True, searchFlights = (\<lambda>_. r), exploreDestinations = None\<rparr>"

text \<open>
  The properties of the request object as \<^verbatim>\<open>handleCompare\<close> builds it, and of the one
  \<^verbatim>\<open>handleSearchFlights\<close> builds for the same request (its optional inputs absent).
\<close>

definition compare_fields :: "(string \<times> json) list" where
  "compare_fields = [(''origin'', JStr ''KRK''), (''destination'', JStr ''BCN''),
     (''date_from'', JStr ''2025-06-01''), (''return_date_from'', JUndefined),
     (''passengers'', JNum 1), (''max_stops'', JNum 2)]"

definition search_fields :: "(string \<times> json) list" where
  "search_fields = [(''origin'', JStr ''KRK''), (''destination'', JStr ''BCN''),
     (''date_from'', JStr ''2025-06-01''), (''date_to'', JUndefined),
     (''return_date_from'', JUndefined), (''return_date_to'', JUndefined),
     (''passengers'', JNum 1), (''max_stops'', JNum 2), (''max_price'', JUndefined)]"

definition krk_bcn :: json where
  "krk_bcn = JObj compare_fields"

text \<open>Three providers that all succeed, and three of which the second fails.\<close>

definition all_succeed :: FlightAggregator where
  "all_succeed = FlightAggregator_new
     [search_provider ''kiwi'' (Fulfilled [lot_offer ''kiwi'' 420 180, wizz_offer]),
      search_provider ''amadeus'' (Fulfilled [lot_offer ''amadeus'' 390 185]),
      search_provider ''serpapi'' (Fulfilled [lot_offer ''serpapi'' 390 180])]"

definition one_fails :: FlightAggregator where
  "one_fails = FlightAggregator_new
     [search_provider ''kiwi'' (Fulfilled [lot_offer ''kiwi'' 420 180, wizz_offer]),
      search_provider ''amadeus'' (Rejected ''Error: Amadeus API error: 500''),
      search_provider ''serpapi'' (Fulfilled [lot_offer ''serpapi'' 390 180])]"

definition all_fail :: FlightAggregator where
  "all_fail = FlightAggregator_new
     [search_provider ''kiwi'' (Rejected ''Error: Kiwi API error: 429''),
      search_provider ''amadeus'' (Rejected ''Error: Amadeus API error: 500'')]"


text \<open>
  A provider with \<^verbatim>\<open>exploreDestinations\<close>, three destinations from KRK (one of them
  reported twice), and the request object as \<^verbatim>\<open>handleExplore\<close> builds it, with a given
  \<^verbatim>\<open>limit\<close>.
\<close>

definition dest_offer :: "FlightSource \<Rightarrow> string \<Rightarrow> real \<Rightarrow> ExploreResult" where
  "dest_offer src d p =
     \<lparr>e_destination = d, e_destination_name = d, e_price = p, e_currency = ''PLN'',
      e_departure_date = ''2025-06-01'', e_return_date = ''2025-06-05'', e_source = src,
      e_deep_link = None\<rparr>"

definition explore_provider ::
  "FlightSource \<Rightarrow> ExploreResult list PromiseSettledResult \<Rightarrow> IFlightProvider" where
  "explore_provider n r =
     \<lparr>name = n, isAvailable = True, searchFlights = (\<lambda>_. Fulfilled []),
      exploreDestinations = Some (\<lambda>_. r)\<rparr>"

definition explorers :: FlightAggregator where
  "explorers = FlightAggregator_new
     [explore_provider ''kiwi''
        (Fulfilled [dest_offer ''kiwi'' ''BCN'' 300, dest_offer ''kiwi'' ''FCO'' 250]),
      search_provider ''amadeus'' (Fulfilled []),
      explore_provider ''ryanair''
        (Fulfilled [dest_offer ''ryanair'' ''BCN'' 200, dest_offer ''ryanair'' ''STN'' 400])]"

definition explore_params :: "int \<Rightarrow> json" where
  "explore_params n = JObj [(''origin'', JStr ''KRK''), (''date_from'', JStr ''2025-06-01''),
     (''date_to'', JStr ''2025-06-30''), (''max_price'', JUndefined),
     (''nights_min'', JNum 2), (''nights_max'', JNum 7), (''limit'', JNum n)]"

section \<open>Properties of the deduplication loops\<close>

lemma first_cheapest_snoc_new:
  assumes "\<forall>g\<in>set xs. key g = key x \<longrightarrow> pr x < pr g"
  shows "first_cheapest key pr (xs @ [x]) x"
proof -
  have "xs @ [x] = xs @ x # [] \<and> (\<forall>g\<in>set xs. key g = key x \<longrightarrow> pr x < pr g)"
    using assms by simp
  then have "\<exists>ys zs. xs @ [x] = ys @ x # zs \<and> (\<forall>g\<in>set ys. key g = key x \<longrightarrow> pr x < pr g)"
    by blast
  moreover have "\<forall>g\<in>set (xs @ [x]). key g = key x \<longrightarrow> pr x \<le> pr g"
    using assms by fastforce
  ultimately show ?thesis by (simp add: first_cheapest_def)
qed

lemma first_cheapest_snoc_old:
  assumes "first_cheapest key pr xs e" and "key x = key e \<longrightarrow> pr e \<le> pr x"
  shows "first_cheapest key pr (xs @ [x]) e"
proof -
  obtain ys zs where d: "xs = ys @ e # zs" "\<forall>g\<in>set ys. key g = key e \<longrightarrow> pr e < pr g"
    using assms(1) unfolding first_cheapest_def by blast
  then have "xs @ [x] = ys @ e # (zs @ [x]) \<and> (\<forall>g\<in>set ys. key g = key e \<longrightarrow> pr e < pr g)"
    by simp
  then have "\<exists>ys zs. xs @ [x] = ys @ e # zs \<and> (\<forall>g\<in>set ys. key g = key e \<longrightarrow> pr e < pr g)"
    by blast
  moreover have "\<forall>g\<in>set (xs @ [x]). key g = key e \<longrightarrow> pr e \<le> pr g"
    using assms by (auto simp: first_cheapest_def)
  ultimately show ?thesis by (simp add: first_cheapest_def)
qed

lemma cheapest_inv_Nil: "cheapest_inv key pr [] []"
  by (simp add: cheapest_inv_def)

lemma cheapest_inv_update:
  assumes inv: "cheapest_inv key pr xs seen"
    and lt: "\<forall>g\<in>set xs. key g = key x \<longrightarrow> pr x < pr g"
  shows "cheapest_inv key pr (xs @ [x]) (AList.update (key x) x seen)"
proof -
  have d: "distinct (map fst (AList.update (key x) x seen))"
    using inv by (simp add: cheapest_inv_def distinct_update)
  have s: "key e = k \<and> first_cheapest key pr (xs @ [x]) e"
    if m: "map_of (AList.update (key x) x seen) k = Some e" for k e
  proof (cases "k = key x")
    case True
    then have "e = x" using m by (simp add: update_conv')
    then show ?thesis using True first_cheapest_snoc_new [OF lt] by simp
  next
    case False
    then have "map_of seen k = Some e" using m by (simp add: update_conv')
    then have "key e = k" "first_cheapest key pr xs e"
      using inv by (auto simp: cheapest_inv_def)
    then show ?thesis using False first_cheapest_snoc_old [of key pr xs e x] by simp
  qed
  have t: "map_of (AList.update (key x) x seen) (key f) \<noteq> None" if "f \<in> set (xs @ [x])" for f
    using that inv by (auto simp: update_conv' cheapest_inv_def)
  show ?thesis unfolding cheapest_inv_def using d s t by blast
qed

lemma cheapest_inv_keep:
  assumes inv: "cheapest_inv key pr xs seen"
    and old: "map_of seen (key x) = Some old" and ge: "\<not> pr x < pr old"
  shows "cheapest_inv key pr (xs @ [x]) seen"
proof -
  have d: "distinct (map fst seen)"
    using inv by (simp add: cheapest_inv_def)
  have s: "key e = k \<and> first_cheapest key pr (xs @ [x]) e" if m: "map_of seen k = Some e" for k e
  proof -
    have ke: "key e = k" "first_cheapest key pr xs e"
      using inv m by (auto simp: cheapest_inv_def)
    have "key x = key e \<longrightarrow> pr e \<le> pr x"
      using ke(1) m old ge by auto
    then show ?thesis using ke first_cheapest_snoc_old [of key pr xs e x] by simp
  qed
  have t: "map_of seen (key f) \<noteq> None" if "f \<in> set (xs @ [x])" for f
    using that inv old by (auto simp: cheapest_inv_def)
  show ?thesis unfolding cheapest_inv_def using d s t by blast
qed

lemma cheapest_inv_step:
  assumes inv: "cheapest_inv key pr xs seen"
  shows "cheapest_inv key pr (xs @ [x]) (cheapest_step key pr seen x)"
proof (cases "map_of seen (key x)")
  case None
  have "\<forall>g\<in>set xs. key g \<noteq> key x"
    using inv None by (auto simp: cheapest_inv_def)
  then have "\<forall>g\<in>set xs. key g = key x \<longrightarrow> pr x < pr g" by simp
  then show ?thesis
    using cheapest_inv_update [OF inv] by (simp add: cheapest_step_def None)
next
  case (Some old)
  show ?thesis
  proof (cases "pr x < pr old")
    case True
    have "first_cheapest key pr xs old" "key old = key x"
      using inv Some by (auto simp: cheapest_inv_def)
    then have "\<forall>g\<in>set xs. key g = key x \<longrightarrow> pr x < pr g"
      using True by (fastforce simp: first_cheapest_def)
    then show ?thesis
      using cheapest_inv_update [OF inv] by (simp add: cheapest_step_def Some True)
  next
    case False
    then show ?thesis
      using cheapest_inv_keep [OF inv Some] by (simp add: cheapest_step_def Some)
  qed
qed

lemma cheapest_inv_foldl: "cheapest_inv key pr xs (foldl (cheapest_step key pr) [] xs)"
proof (induction xs rule: rev_induct)
  case Nil
  show ?case by (simp add: cheapest_inv_Nil)
next
  case (snoc x xs)
  then show ?case by (simp add: cheapest_inv_step)
qed

text \<open>What the invariant says about the values of the final map.\<close>

lemma cheapest_inv_values:
  assumes "cheapest_inv key pr xs seen"
  shows "distinct (map key (map snd seen))"
    and "e \<in> set (map snd seen) \<Longrightarrow> first_cheapest key pr xs e"
    and "f \<in> set xs \<Longrightarrow> \<exists>e\<in>set (map snd seen). key e = key f"
proof -
  have d: "distinct (map fst seen)" using assms by (simp add: cheapest_inv_def)
  have k: "key (snd p) = fst p \<and> first_cheapest key pr xs (snd p)" if "p \<in> set seen" for p
  proof -
    have "map_of seen (fst p) = Some (snd p)" using d that by simp
    moreover have "\<forall>k e. map_of seen k = Some e \<longrightarrow> key e = k \<and> first_cheapest key pr xs e"
      using assms by (simp add: cheapest_inv_def)
    ultimately show ?thesis by blast
  qed
  have "map key (map snd seen) = map fst seen"
    using k by simp
  with d show "distinct (map key (map snd seen))" by (simp only:)
  show "e \<in> set (map snd seen) \<Longrightarrow> first_cheapest key pr xs e"
    using k by auto
  show "\<exists>e\<in>set (map snd seen). key e = key f" if fx: "f \<in> set xs"
  proof -
    obtain e where m: "map_of seen (key f) = Some e"
      using assms fx by (auto simp: cheapest_inv_def)
    then have "(key f, e) \<in> set seen" by (rule map_of_SomeD)
    moreover have "key e = key f" using assms m by (simp add: cheapest_inv_def)
    ultimately show ?thesis by force
  qed
qed

lemma deduplicate_step_cheapest: "deduplicate_step = cheapest_step dedupe_key price"
  by (intro ext) (simp add: deduplicate_step_def cheapest_step_def Map_get_def Map_set_def Let_def split: option.splits)


lemma deduplicate_cheapest:
  "deduplicate flights = map snd (foldl (cheapest_step dedupe_key price) [] flights)"
  by (simp add: deduplicate_def Map_values_def deduplicate_step_cheapest)

lemma byDest_step_cheapest: "byDest_step = cheapest_step e_destination e_price"
  by (intro ext)
     (simp add: byDest_step_def cheapest_step_def Map_get_def Map_set_def split: option.splits)

lemma first_cheapest_mem: "first_cheapest key pr xs e \<Longrightarrow> e \<in> set xs"
  by (auto simp: first_cheapest_def)





lemma deduplicate_first_cheapest:
  "e \<in> set (deduplicate flights) \<Longrightarrow> first_cheapest dedupe_key price flights e"
  unfolding deduplicate_cheapest
  by (rule cheapest_inv_values(2) [OF cheapest_inv_foldl])

lemma deduplicate_covers:
  "f \<in> set flights \<Longrightarrow> \<exists>e\<in>set (deduplicate flights). dedupe_key e = dedupe_key f"
  unfolding deduplicate_cheapest
  by (rule cheapest_inv_values(3) [OF cheapest_inv_foldl])


lemma deduplicate_subset: "set (deduplicate flights) \<subseteq> set flights"
  using deduplicate_first_cheapest first_cheapest_mem by fastforce

lemma deduplicate_covers_cheaper:
  assumes "f \<in> set flights"
  shows "\<exists>e\<in>set (deduplicate flights). dedupe_key e = dedupe_key f \<and> price e \<le> price f"
proof -
  obtain e where e: "e \<in> set (deduplicate flights)" "dedupe_key e = dedupe_key f"
    using deduplicate_covers [OF assms] by blast
  have "first_cheapest dedupe_key price flights e"
    using e(1) by (rule deduplicate_first_cheapest)
  then have "price e \<le> price f"
    using assms e(2) by (simp add: first_cheapest_def)
  then show ?thesis using e by blast
qed

subsection \<open>The sort\<close>

lemma insert_by_insort_key:
  assumes "\<forall>x y. (cmp x y \<le> 0) = (k x \<le> k y)"
  shows "insert_by cmp x ys = insort_key k x ys"
  by (induction ys) (simp_all add: assms)

lemma Array_sort_sort_key:
  assumes "\<forall>x y. (cmp x y \<le> 0) = (k x \<le> k y)"
  shows "Array_sort cmp xs = sort_key k xs"
proof -
  have "insert_by cmp = insort_key k"
    by (intro ext) (rule insert_by_insort_key [OF assms])
  then show ?thesis by (simp add: Array_sort_def sort_key_def)
qed

lemma compare_flights_rank: "(compare_flights a b \<le> 0) = (flight_rank a \<le> flight_rank b)"
  by (auto simp: compare_flights_def flight_rank_def less_eq_prod_def)

lemma sort_flights: "Array_sort compare_flights xs = sort_key flight_rank xs"
  by (rule Array_sort_sort_key) (simp add: compare_flights_rank)

lemma sort_destinations: "Array_sort compare_destinations xs = sort_key e_price xs"
  by (rule Array_sort_sort_key) (simp add: compare_destinations_def)

subsection \<open>The settled results\<close>

lemma settle_flights_eq:
  "settle_flights (zip ps (map (\<lambda>p. searchFlights p params) ps)) fl er =
     (fl @ successful_offers ps params, er @ failure_lines ps params)"
proof (induction ps arbitrary: fl er)
  case Nil
  show ?case by (simp add: successful_offers_def failure_lines_def)
next
  case (Cons p ps)
  show ?case
  proof (cases "searchFlights p params")
    case (Fulfilled v)
    then show ?thesis
      using Cons [of "fl @ v" er] by (simp add: successful_offers_def failure_lines_def)
  next
    case (Rejected reason)
    then show ?thesis
      using Cons [of fl "er @ [name p @ '': '' @ reason]"]
      by (simp add: successful_offers_def failure_lines_def)
  qed
qed

lemma settle_destinations_eq:
  "settle_destinations
     (map (\<lambda>p. the (exploreDestinations p) params)
        (filter (\<lambda>p. exploreDestinations p \<noteq> None) ps)) ds =
   ds @ successful_destinations ps params"
proof (induction ps arbitrary: ds)
  case Nil
  show ?case by (simp add: successful_destinations_def)
next
  case (Cons p ps)
  show ?case
  proof (cases "exploreDestinations p")
    case None
    then show ?thesis using Cons [of ds] by (simp add: successful_destinations_def)
  next
    case (Some call)
    show ?thesis
    proof (cases "call params")
      case (Fulfilled v)
      then show ?thesis
        using Some Cons [of "ds @ v"] by (simp add: successful_destinations_def)
    next
      case (Rejected reason)
      then show ?thesis
        using Some Cons [of ds] by (simp add: successful_destinations_def)
    qed
  qed
qed

subsection \<open>The two paths of searchFlights\<close>

lemma search_miss:
  assumes "fst (TTLCache_get (cache_flights a) now_get (search_key params flt)) = None"
  shows "FlightAggregator_searchFlights a now_get now_set params flt =
     \<lparr>returned = Array_sort compare_flights
         (deduplicate (successful_offers (getActiveProviders a flt) params)),
      invoked = map name (getActiveProviders a flt),
      logged = failure_lines (getActiveProviders a flt) params,
      after = a\<lparr>cache_flights :=
        TTLCache_set (snd (TTLCache_get (cache_flights a) now_get (search_key params flt)))
          now_set (search_key params flt)
          (Array_sort compare_flights
             (deduplicate (successful_offers (getActiveProviders a flt) params))) None\<rparr>\<rparr>"
  using assms by (simp add: FlightAggregator_searchFlights_def Let_def settle_flights_eq)

lemma search_hit:
  assumes "fst (TTLCache_get (cache_flights a) now_get (search_key params flt)) = Some v"
  shows "FlightAggregator_searchFlights a now_get now_set params flt =
     \<lparr>returned = v, invoked = [], logged = [],
      after = a\<lparr>cache_flights :=
        snd (TTLCache_get (cache_flights a) now_get (search_key params flt))\<rparr>\<rparr>"
  using assms by (simp add: FlightAggregator_searchFlights_def Let_def)


lemma empty_cache_miss:
  "fst (TTLCache_get (cache_flights (FlightAggregator_new ps)) now key) = None"
  by (simp add: FlightAggregator_new_def TTLCache_new_def TTLCache_get_def)

text \<open>
  The example of the specification: the prices 420, 390 and 390 for one key leave the
  first offer at 390; the other flight, equal in price and shorter, comes first.
\<close>

lemma all_succeed_result:
  "returned (FlightAggregator_searchFlights all_succeed 0 5 krk_bcn None) =
     [wizz_offer, lot_offer ''amadeus'' 390 185]"
proof -
  have h: "fst (TTLCache_get (cache_flights all_succeed) 0 (search_key krk_bcn None)) = None"
    unfolding all_succeed_def by (rule empty_cache_miss)
  show ?thesis
    unfolding search_miss [OF h]
    by (simp add: all_succeed_def FlightAggregator_new_def getActiveProviders_def
        search_provider_def successful_offers_def deduplicate_def deduplicate_step_def
        Map_get_def Map_set_def Map_values_def dedupe_key_def lot_offer_def wizz_offer_def
        Array_sort_def compare_flights_def)
qed






text \<open>
  Claim C2. The list \<^verbatim>\<open>searchFlights\<close> computes is sorted by price, offers of equal
  price by duration; and the offers that agree in price and in duration are in the
  order in which deduplication left them.
\<close>

theorem search_sorted_by_price_then_duration:
  assumes "fst (TTLCache_get (cache_flights a) now_get (search_key params flt)) = None"
  shows "sorted_wrt (\<lambda>x y. price x < price y \<or>
                     (price x = price y \<and> duration_minutes x \<le> duration_minutes y))
           (returned (FlightAggregator_searchFlights a now_get now_set params flt)) \<and>
         (\<forall>p d. filter (\<lambda>f. price f = p \<and> duration_minutes f = d)
                   (returned (FlightAggregator_searchFlights a now_get now_set params flt)) =
                 filter (\<lambda>f. price f = p \<and> duration_minutes f = d)
                   (deduplicate (successful_offers (getActiveProviders a flt) params)))"
proof -
  let ?D = "deduplicate (successful_offers (getActiveProviders a flt) params)"
  have out: "returned (FlightAggregator_searchFlights a now_get now_set params flt) =
      sort_key flight_rank ?D"
    by (simp add: search_miss [OF assms] sort_flights)
  have "sorted (map flight_rank (sort_key flight_rank ?D))"
    by (rule sorted_sort_key)
  then have "sorted_wrt (\<lambda>x y. flight_rank x \<le> flight_rank y) (sort_key flight_rank ?D)"
    by (simp add: sorted_map)
  then have s: "sorted_wrt (\<lambda>x y. price x < price y \<or>
                     (price x = price y \<and> duration_minutes x \<le> duration_minutes y))
                  (sort_key flight_rank ?D)"
    by (rule sorted_wrt_mono_rel [rotated]) (auto simp: flight_rank_def less_eq_prod_def)
  have t: "filter (\<lambda>f. price f = p \<and> duration_minutes f = d) (sort_key flight_rank ?D) =
           filter (\<lambda>f. price f = p \<and> duration_minutes f = d) ?D" for p d
    using sort_key_stable [of flight_rank "(p, d)" ?D] by (simp add: flight_rank_def)
  show ?thesis unfolding out using s t by blast
qed

theorem search_sorted_by_price_then_duration_witness:
  "fst (TTLCache_get (cache_flights all_succeed) 0 (search_key krk_bcn None)) = None \<and>
   sorted_wrt (\<lambda>x y. price x < price y \<or>
                 (price x = price y \<and> duration_minutes x \<le> duration_minutes y))
     (returned (FlightAggregator_searchFlights all_succeed 0 5 krk_bcn None)) \<and>
   (\<forall>p d. filter (\<lambda>f. price f = p \<and> duration_minutes f = d)
             (returned (FlightAggregator_searchFlights all_succeed 0 5 krk_bcn None)) =
           filter (\<lambda>f. price f = p \<and> duration_minutes f = d)
             (deduplicate (successful_offers (getActiveProviders all_succeed None) krk_bcn)))"
proof -
  have h: "fst (TTLCache_get (cache_flights all_succeed) 0 (search_key krk_bcn None)) = None"
    unfolding all_succeed_def by (rule empty_cache_miss)
  show ?thesis
    using h search_sorted_by_price_then_duration [OF h, of 5] by blast
qed

text \<open>
  Claim C9. The key of \<^verbatim>\<open>deduplicate\<close> joins the five fields with dashes and escapes
  nothing. The Ryanair offer for KRK to BCN (flight number \<^verbatim>\<open>FR-KRK-BCN\<close>) and an offer
  with airline code \<^verbatim>\<open>FR-FR\<close> and flight number \<^verbatim>\<open>KRK-BCN\<close> differ in their composite
  keys and have the same joined string; \<^verbatim>\<open>deduplicate\<close> keeps only the cheaper of the
  two, in either input order.
\<close>

theorem dedupe_key_collision_drops_a_flight:
  "composite_key ryanair_offer \<noteq> composite_key other_offer \<and>
   dedupe_key ryanair_offer = dedupe_key other_offer \<and>
   deduplicate [ryanair_offer, other_offer] = [ryanair_offer] \<and>
   deduplicate [other_offer, ryanair_offer] = [ryanair_offer]"
  by (simp add: composite_key_def dedupe_key_def deduplicate_def deduplicate_step_def
      Map_get_def Map_set_def Map_values_def ryanair_offer_def other_offer_def)

section \<open>The token bucket\<close>

lemma refill_bounds:
  "tokens (refill rl now) \<le> max_tokens rl \<and> max_tokens (refill rl now) = max_tokens rl"
  by (simp add: refill_def Let_def)

lemma acquire_resume_bounds:
  "tokens (acquire_resume rl now) \<le> max_tokens rl \<and>
   max_tokens (acquire_resume rl now) = max_tokens rl"
  using refill_bounds [of rl now] by (simp add: acquire_resume_def Let_def)

lemma acquire_event_step_bounds:
  "tokens (acquire_event_step rl ev) \<le> max_tokens rl \<and>
   max_tokens (acquire_event_step rl ev) = max_tokens rl"
proof (cases ev)
  case (Call now)
  then show ?thesis
    using refill_bounds [of rl now] by (simp add: acquire_begin_def Let_def)
next
  case (Wake now)
  then show ?thesis using acquire_resume_bounds [of rl now] by simp
qed

lemma RateLimiter_acquire_bounds:
  "tokens (RateLimiter_acquire rl now now') \<le> max_tokens rl \<and>
   max_tokens (RateLimiter_acquire rl now now') = max_tokens rl"
proof (cases "1 \<le> tokens (refill rl now)")
  case True
  then show ?thesis
    using refill_bounds [of rl now]
    by (simp add: RateLimiter_acquire_def acquire_begin_def Let_def)
next
  case False
  then show ?thesis
    using acquire_resume_bounds [of "refill rl now" now'] refill_bounds [of rl now]
    by (simp add: RateLimiter_acquire_def acquire_begin_def Let_def)
qed

lemma foldl_bounds:
  assumes "\<And>r x. tokens (f r x) \<le> max_tokens r \<and> max_tokens (f r x) = max_tokens r"
    and "tokens rl \<le> max_tokens rl"
  shows "tokens (foldl f rl xs) \<le> max_tokens rl \<and> max_tokens (foldl f rl xs) = max_tokens rl"
proof (induction xs rule: rev_induct)
  case Nil
  show ?case using assms(2) by simp
next
  case (snoc x xs)
  show ?case using assms(1) [of "foldl f rl xs" x] snoc by simp
qed

text \<open>
  Claim C7. A refill never leaves more than \<^verbatim>\<open>max_tokens\<close> in the bucket, whatever the
  state before and however long the bucket was idle; and after any sequence of calls
  of \<^verbatim>\<open>acquire\<close> on a new limiter, overlapping or not and with any clock readings, the
  token count is at most the capacity.
\<close>

theorem tokens_never_exceed_capacity:
  "tokens (refill rl now) \<le> max_tokens rl \<and>
   tokens (acquire_all (RateLimiter_new cap rate t0) ts) \<le> cap \<and>
   tokens (acquire_events (RateLimiter_new cap rate t0) evs) \<le> cap"
proof -
  have new: "tokens (RateLimiter_new cap rate t0) \<le> max_tokens (RateLimiter_new cap rate t0)"
    and cap: "max_tokens (RateLimiter_new cap rate t0) = cap"
    by (simp_all add: RateLimiter_new_def)
  have "tokens (acquire_all (RateLimiter_new cap rate t0) ts)
      \<le> max_tokens (RateLimiter_new cap rate t0)"
    unfolding acquire_all_def
    using foldl_bounds [of "\<lambda>r t. RateLimiter_acquire r (fst t) (snd t)", OF _ new]
      RateLimiter_acquire_bounds by blast
  moreover have "tokens (acquire_events (RateLimiter_new cap rate t0) evs)
      \<le> max_tokens (RateLimiter_new cap rate t0)"
    unfolding acquire_events_def
    using foldl_bounds [of acquire_event_step, OF _ new] acquire_event_step_bounds by blast
  ultimately show ?thesis using refill_bounds [of rl now] cap by simp
qed

lemma burst_state:
  assumes "real k \<le> cap"
  shows "acquire_all (RateLimiter_new cap rate t0) (replicate k (t0, t0)) =
         (RateLimiter_new cap rate t0)\<lparr>tokens := cap - real k\<rparr>"
  using assms
proof (induction k)
  case 0
  show ?case by (simp add: acquire_all_def RateLimiter_new_def)
next
  case (Suc k)
  have k: "real k + 1 \<le> cap" using Suc.prems by simp
  have "acquire_all (RateLimiter_new cap rate t0) (replicate (Suc k) (t0, t0)) =
        RateLimiter_acquire (acquire_all (RateLimiter_new cap rate t0) (replicate k (t0, t0))) t0 t0"
  proof -
    have "replicate (Suc k) (t0, t0) = replicate k (t0, t0) @ [(t0, t0)]"
      by (simp add: replicate_append_same)
    then show ?thesis by (simp only: acquire_all_def foldl_append foldl.simps fst_conv snd_conv)
  qed
  also have "\<dots> = RateLimiter_acquire ((RateLimiter_new cap rate t0)\<lparr>tokens := cap - real k\<rparr>) t0 t0"
    using Suc.IH k by simp
  also have "\<dots> = (RateLimiter_new cap rate t0)\<lparr>tokens := cap - real (Suc k)\<rparr>"
    using k by (simp add: RateLimiter_acquire_def acquire_begin_def refill_def
        RateLimiter_new_def Let_def algebra_simps)
  finally show ?case .
qed

lemma immediate_burst:
  assumes "real k \<le> cap"
  shows "immediate (acquire_all (RateLimiter_new cap rate t0) (replicate k (t0, t0))) t0
         \<longleftrightarrow> real k + 1 \<le> cap"
  unfolding burst_state [OF assms]
  by (auto simp: immediate_def acquire_begin_def refill_def RateLimiter_new_def Let_def)

text \<open>
  Claim C10. A new limiter of capacity \<open>cap \<ge> 0\<close> holds \<open>cap\<close> tokens. With the clock
  still at the instant of construction, each of the first \<open>\<lfloor>cap\<rfloor>\<close> calls of \<^verbatim>\<open>acquire\<close>
  returns without suspending, \<open>cap - \<lfloor>cap\<rfloor>\<close> tokens are left after them, and the call
  after them suspends.
\<close>

theorem fresh_bucket_burst:
  assumes "0 \<le> cap"
  shows "tokens (RateLimiter_new cap rate t0) = cap \<and>
     (\<forall>k < nat \<lfloor>cap\<rfloor>.
        immediate (acquire_all (RateLimiter_new cap rate t0) (replicate k (t0, t0))) t0) \<and>
     tokens (acquire_all (RateLimiter_new cap rate t0) (replicate (nat \<lfloor>cap\<rfloor>) (t0, t0)))
       = cap - of_int \<lfloor>cap\<rfloor> \<and>
     \<not> immediate (acquire_all (RateLimiter_new cap rate t0)
          (replicate (nat \<lfloor>cap\<rfloor>) (t0, t0))) t0"
proof -
  have fl: "0 \<le> \<lfloor>cap\<rfloor>" using assms by simp
  have n: "real (nat \<lfloor>cap\<rfloor>) = of_int \<lfloor>cap\<rfloor>" using fl by simp
  have le: "real (nat \<lfloor>cap\<rfloor>) \<le> cap" using n by simp
  have a: "immediate (acquire_all (RateLimiter_new cap rate t0) (replicate k (t0, t0))) t0"
    if "k < nat \<lfloor>cap\<rfloor>" for k
  proof -
    have "int k + 1 \<le> \<lfloor>cap\<rfloor>" using that by linarith
    then have "real_of_int (int k + 1) \<le> cap" by (simp only: le_floor_iff)
    then have k1: "real k + 1 \<le> cap" by simp
    then have "real k \<le> cap" by simp
    then show ?thesis using k1 by (simp add: immediate_burst)
  qed
  have b: "tokens (acquire_all (RateLimiter_new cap rate t0) (replicate (nat \<lfloor>cap\<rfloor>) (t0, t0)))
       = cap - of_int \<lfloor>cap\<rfloor>"
    by (simp add: burst_state [OF le] n)
  have "\<not> real (nat \<lfloor>cap\<rfloor>) + 1 \<le> cap"
    unfolding n by linarith
  then have c: "\<not> immediate (acquire_all (RateLimiter_new cap rate t0)
          (replicate (nat \<lfloor>cap\<rfloor>) (t0, t0))) t0"
    by (simp add: immediate_burst [OF le])
  show ?thesis using a b c by (simp add: RateLimiter_new_def)
qed

theorem fresh_bucket_burst_witness:
  "(0::real) \<le> 3 \<and>
   tokens (RateLimiter_new 3 1 0) = 3 \<and>
   immediate (acquire_all (RateLimiter_new 3 1 0) (replicate 0 (0, 0))) 0 \<and>
   immediate (acquire_all (RateLimiter_new 3 1 0) (replicate 1 (0, 0))) 0 \<and>
   immediate (acquire_all (RateLimiter_new 3 1 0) (replicate 2 (0, 0))) 0 \<and>
   tokens (acquire_all (RateLimiter_new 3 1 0) (replicate 3 (0, 0))) = 0 \<and>
   \<not> immediate (acquire_all (RateLimiter_new 3 1 0) (replicate 3 (0, 0))) 0"
proof -
  have h: "(0::real) \<le> 3" by simp
  have n: "nat \<lfloor>3::real\<rfloor> = 3" by simp
  note t = fresh_bucket_burst [OF h, of 1 0, unfolded n]
  note a = t [THEN conjunct2, THEN conjunct1, rule_format]
  have i0: "immediate (acquire_all (RateLimiter_new 3 1 0) (replicate 0 (0, 0))) 0"
    using a [of 0] by simp
  have i1: "immediate (acquire_all (RateLimiter_new 3 1 0) (replicate 1 (0, 0))) 0"
    using a [of 1] by simp
  have i2: "immediate (acquire_all (RateLimiter_new 3 1 0) (replicate 2 (0, 0))) 0"
    using a [of 2] by simp
  show ?thesis using t i0 i1 i2 by simp
qed

text \<open>
  Claim C6 says that no call of \<^verbatim>\<open>acquire\<close> leaves a negative token count. The slow
  path subtracts one token after the wait without checking that one is there and
  without clamping. On the limiter of the Ryanair provider, \<^verbatim>\<open>RateLimiter(3, 1)\<close>, five
  calls made at the same instant leave two of them suspended for 1000 ms each; when
  both have woken, the count is \<open>-1\<close>. A limiter of capacity one half goes negative
  even with a single call whose timer is exact.
\<close>

theorem overlapping_acquires_overdraw:
  "acquire_begin (acquire_events (RateLimiter_new 3 1 0) [Call 0, Call 0, Call 0]) 0 =
     Suspended 1000 \<lparr>tokens = 0, last_refill = 0, max_tokens = 3, refill_rate = 1\<rparr> \<and>
   tokens (acquire_events (RateLimiter_new 3 1 0)
     [Call 0, Call 0, Call 0, Call 0, Call 0, Wake 1000, Wake 1000]) = - 1 \<and>
   acquire_begin (RateLimiter_new (1 / 2) 1 0) 0 =
     Suspended 500 \<lparr>tokens = 1 / 2, last_refill = 0, max_tokens = 1 / 2, refill_rate = 1\<rparr> \<and>
   tokens (RateLimiter_acquire (RateLimiter_new (1 / 2) 1 0) 0 500) = - 1 / 2"
  by (simp add: acquire_events_def acquire_begin_def acquire_resume_def refill_def
      RateLimiter_new_def RateLimiter_acquire_def Let_def)

text \<open>
  What the slow path relies on: a capacity of at least one token, a positive rate, no
  other caller between the two parts of the call, and a timer that does not fire
  early. Then the call leaves a count that is not negative.
\<close>

lemma acquire_nonneg_when_waited:
  assumes "1 \<le> max_tokens rl" and "0 < refill_rate rl"
    and "\<forall>w rl'. acquire_begin rl now = Suspended w rl' \<longrightarrow> w \<le> real_of_int (now' - now)"
  shows "0 \<le> tokens (RateLimiter_acquire rl now now')"
proof (cases "1 \<le> tokens (refill rl now)")
  case True
  then show ?thesis by (simp add: RateLimiter_acquire_def acquire_begin_def Let_def)
next
  case False
  let ?r = "refill rl now"
  have r: "refill_rate ?r = refill_rate rl" "max_tokens ?r = max_tokens rl" "last_refill ?r = now"
    by (simp_all add: refill_def Let_def)
  have "acquire_begin rl now = Suspended (((1 - tokens ?r) / refill_rate ?r) * 1000) ?r"
    using False by (simp add: acquire_begin_def Let_def)
  then have w: "((1 - tokens ?r) / refill_rate rl) * 1000 \<le> real_of_int (now' - now)"
    using assms(3) r by simp
  have "(1 - tokens ?r) / refill_rate rl \<le> real_of_int (now' - now) / 1000"
    using w by simp
  then have "1 - tokens ?r \<le> real_of_int (now' - now) / 1000 * refill_rate rl"
    using assms(2) by (simp add: pos_divide_le_eq)
  then have "1 \<le> tokens ?r + real_of_int (now' - last_refill ?r) / 1000 * refill_rate ?r"
    using r by simp
  then have "1 \<le> tokens (refill ?r now')"
    using assms(1) r by (simp add: refill_def [of ?r] Let_def)
  then show ?thesis
    using False by (simp add: RateLimiter_acquire_def acquire_begin_def acquire_resume_def Let_def)
qed

section \<open>The cache key\<close>

lemma JSON_stringify_None_iff: "(JSON_stringify v = None) = (v = JUndefined)"
  by (cases v) simp_all

lemma object_properties_defined:
  "concat (map (\<lambda>kv. case JSON_stringify (snd kv) of
                        None \<Rightarrow> []
                      | Some t \<Rightarrow> [quote_string (fst kv) @ '':'' @ t]) fs) =
   concat (map (\<lambda>kv. case JSON_stringify (snd kv) of
                        None \<Rightarrow> []
                      | Some t \<Rightarrow> [quote_string (fst kv) @ '':'' @ t])
             (filter (\<lambda>kv. snd kv \<noteq> JUndefined) fs))"
proof (induction fs)
  case Nil
  show ?case by simp
next
  case (Cons kv fs)
  show ?case
  proof (cases "snd kv = JUndefined")
    case True
    then show ?thesis using Cons by simp
  next
    case False
    then show ?thesis using Cons by simp
  qed
qed

lemma JSON_stringify_object_defined:
  "JSON_stringify (JObj fs) = JSON_stringify (JObj (filter (\<lambda>kv. snd kv \<noteq> JUndefined) fs))"
  using object_properties_defined [of fs] by simp

lemma search_key_not_explore_key: "search_key params flt \<noteq> explore_key params' flt'"
  by (simp add: TTLCache_buildKey_def quote_string_def quote_char_def)

text \<open>
  Claim C5 says that the key does not depend on the insertion order of the request's
  properties. \<^verbatim>\<open>JSON.stringify\<close> writes them in insertion order: the same two
  properties in the two orders give two different keys.
\<close>

theorem buildKey_depends_on_property_order:
  "set [(''origin'', JStr ''KRK''), (''destination'', JStr ''BCN'')] =
   set [(''destination'', JStr ''BCN''), (''origin'', JStr ''KRK'')] \<and>
   TTLCache_buildKey
     [JStr ''search'', JObj [(''origin'', JStr ''KRK''), (''destination'', JStr ''BCN'')],
      JUndefined] \<noteq>
   TTLCache_buildKey
     [JStr ''search'', JObj [(''destination'', JStr ''BCN''), (''origin'', JStr ''KRK'')],
      JUndefined]"
  by (auto simp add: TTLCache_buildKey_def quote_string_def quote_char_def)

text \<open>
  Claim C5, amended. The key is determined by the properties of the request whose value
  is defined, in insertion order: two representations of a request whose defined
  properties are the same sequence of names and values get the same key, whatever
  properties with the value \<^verbatim>\<open>undefined\<close> they carry in between. The objects built by
  \<^verbatim>\<open>handleCompare\<close> and by \<^verbatim>\<open>handleSearchFlights\<close> for one request are such a pair.
\<close>

theorem buildKey_same_defined_properties:
  assumes "filter (\<lambda>kv. snd kv \<noteq> JUndefined) fs = filter (\<lambda>kv. snd kv \<noteq> JUndefined) fs'"
  shows "TTLCache_buildKey [tag, JObj fs, flt] = TTLCache_buildKey [tag, JObj fs', flt]"
proof -
  have "JSON_stringify (JObj fs) = JSON_stringify (JObj fs')"
    using assms JSON_stringify_object_defined [of fs] JSON_stringify_object_defined [of fs']
    by simp
  then show ?thesis by (simp add: TTLCache_buildKey_def)
qed

theorem buildKey_same_defined_properties_witness:
  "filter (\<lambda>kv. snd kv \<noteq> JUndefined) compare_fields =
     filter (\<lambda>kv. snd kv \<noteq> JUndefined) search_fields \<and>
   TTLCache_buildKey [JStr ''search'', JObj compare_fields, JUndefined] =
     TTLCache_buildKey [JStr ''search'', JObj search_fields, JUndefined]"
proof -
  have h: "filter (\<lambda>kv. snd kv \<noteq> JUndefined) compare_fields =
     filter (\<lambda>kv. snd kv \<noteq> JUndefined) search_fields"
    by (simp add: compare_fields_def search_fields_def)
  show ?thesis
    using h buildKey_same_defined_properties [OF h, of "JStr ''search''" JUndefined] by blast
qed

section \<open>The cache\<close>

lemma TTLCache_get_absent: "store c k = None \<Longrightarrow> TTLCache_get c now k = (None, c)"
  by (simp add: TTLCache_get_def)

lemma TTLCache_get_live:
  "store c k = Some e \<Longrightarrow> now \<le> expires_at e \<Longrightarrow> TTLCache_get c now k = (Some (entry_value e), c)"
  by (simp add: TTLCache_get_def)

lemma TTLCache_get_stale:
  "store c k = Some e \<Longrightarrow> expires_at e < now \<Longrightarrow>
     TTLCache_get c now k = (None, c\<lparr>store := (store c)(k := None)\<rparr>)"
  by (simp add: TTLCache_get_def)

lemma TTLCache_get_Some_iff:
  "(fst (TTLCache_get c now k) = Some v) =
     (\<exists>e. store c k = Some e \<and> now \<le> expires_at e \<and> entry_value e = v)"
  by (auto simp: TTLCache_get_def split: option.splits)

lemma TTLCache_get_default_ttl: "default_ttl_ms (snd (TTLCache_get c now k)) = default_ttl_ms c"
  by (simp add: TTLCache_get_def split: option.splits)

lemma TTLCache_set_store:
  "store (TTLCache_set c now k v None) k =
     Some \<lparr>entry_value = v, expires_at = now + default_ttl_ms c\<rparr>"
  by (simp add: TTLCache_set_def)

text \<open>After any call of searchFlights the cache holds the returned list under the key.\<close>

lemma search_leaves_entry:
  "\<exists>e. store (cache_flights (after (FlightAggregator_searchFlights a t1 t1' params flt)))
          (search_key params flt) = Some e \<and>
       entry_value e = returned (FlightAggregator_searchFlights a t1 t1' params flt) \<and>
       (if fst (TTLCache_get (cache_flights a) t1 (search_key params flt)) = None
        then expires_at e = t1' + default_ttl_ms (cache_flights a)
        else t1 \<le> expires_at e \<and>
             after (FlightAggregator_searchFlights a t1 t1' params flt) = a)"
proof (cases "fst (TTLCache_get (cache_flights a) t1 (search_key params flt))")
  case None
  show ?thesis
    unfolding search_miss [OF None]
    by (simp add: None TTLCache_set_store TTLCache_get_default_ttl)
next
  case (Some v)
  then obtain e where e: "store (cache_flights a) (search_key params flt) = Some e"
    "t1 \<le> expires_at e" "entry_value e = v"
    by (auto simp: TTLCache_get_Some_iff)
  have "snd (TTLCache_get (cache_flights a) t1 (search_key params flt)) = cache_flights a"
    using e by (simp add: TTLCache_get_live)
  then show ?thesis
    unfolding search_hit [OF Some] using Some e by simp
qed

lemma search_again_live:
  assumes "store (cache_flights a) (search_key params flt) = Some e" and "t2 \<le> expires_at e"
  shows "FlightAggregator_searchFlights (a\<lparr>providers := ps\<rparr>) t2 t2' params flt =
     \<lparr>returned = entry_value e, invoked = [], logged = [], after = a\<lparr>providers := ps\<rparr>\<rparr>"
proof -
  have g: "TTLCache_get (cache_flights a) t2 (search_key params flt) =
      (Some (entry_value e), cache_flights a)"
    using assms by (simp add: TTLCache_get_live)
  then have "fst (TTLCache_get (cache_flights (a\<lparr>providers := ps\<rparr>)) t2 (search_key params flt))
      = Some (entry_value e)" by simp
  from search_hit [OF this] show ?thesis by (simp add: g)
qed

lemma search_again_stale:
  assumes "store (cache_flights a) (search_key params flt) = Some e" and "expires_at e < t2"
  shows "FlightAggregator_searchFlights (a\<lparr>providers := ps\<rparr>) t2 t2' params flt =
     \<lparr>returned = Array_sort compare_flights
         (deduplicate (successful_offers (getActiveProviders (a\<lparr>providers := ps\<rparr>) flt) params)),
      invoked = map name (getActiveProviders (a\<lparr>providers := ps\<rparr>) flt),
      logged = failure_lines (getActiveProviders (a\<lparr>providers := ps\<rparr>) flt) params,
      after = a\<lparr>providers := ps, cache_flights :=
        TTLCache_set ((cache_flights a)\<lparr>store := (store (cache_flights a))(search_key params flt := None)\<rparr>)
          t2' (search_key params flt)
          (Array_sort compare_flights
             (deduplicate (successful_offers (getActiveProviders (a\<lparr>providers := ps\<rparr>) flt) params)))
          None\<rparr>\<rparr>"
proof -
  have g: "TTLCache_get (cache_flights a) t2 (search_key params flt) =
      (None, (cache_flights a)\<lparr>store := (store (cache_flights a))(search_key params flt := None)\<rparr>)"
    using assms by (simp add: TTLCache_get_stale)
  then have "fst (TTLCache_get (cache_flights (a\<lparr>providers := ps\<rparr>)) t2 (search_key params flt))
      = None" by simp
  from search_miss [OF this] show ?thesis by (simp add: g)
qed

section \<open>Failing providers\<close>

lemma successful_offers_all_rejected:
  assumes "\<forall>p\<in>set ps. \<exists>reason. searchFlights p params = Rejected reason"
  shows "successful_offers ps params = []"
  using assms by (auto simp: successful_offers_def)

text \<open>
  Claim C3. \<^verbatim>\<open>searchFlights\<close> has no failing path of its own: a rejected promise of a
  provider is a value of \<^verbatim>\<open>Promise.allSettled\<close>, and the model returns an outcome for
  every input. When it computes (no live cache entry), it calls every active provider,
  logs one line per failed provider, and returns the sorted deduplication of the
  offers of the providers that succeeded: every returned offer is one of these, and
  every one of these is represented by a returned offer with the same key that costs
  no more. If every active provider fails, in particular if none is active, the
  returned list is empty.
\<close>

theorem search_tolerates_failed_sources:
  assumes "fst (TTLCache_get (cache_flights a) now_get (search_key params flt)) = None"
  shows "returned (FlightAggregator_searchFlights a now_get now_set params flt) =
           Array_sort compare_flights
             (deduplicate (successful_offers (getActiveProviders a flt) params)) \<and>
         invoked (FlightAggregator_searchFlights a now_get now_set params flt) =
           map name (getActiveProviders a flt) \<and>
         logged (FlightAggregator_searchFlights a now_get now_set params flt) =
           failure_lines (getActiveProviders a flt) params \<and>
         set (returned (FlightAggregator_searchFlights a now_get now_set params flt))
           \<subseteq> set (successful_offers (getActiveProviders a flt) params) \<and>
         (\<forall>f\<in>set (successful_offers (getActiveProviders a flt) params).
            \<exists>e\<in>set (returned (FlightAggregator_searchFlights a now_get now_set params flt)).
              dedupe_key e = dedupe_key f \<and> price e \<le> price f) \<and>
         ((\<forall>p\<in>set (getActiveProviders a flt). \<exists>reason. searchFlights p params = Rejected reason)
            \<longrightarrow> returned (FlightAggregator_searchFlights a now_get now_set params flt) = [])"
proof -
  let ?flights = "successful_offers (getActiveProviders a flt) params"
  note m = search_miss [OF assms, of now_set]
  have r: "returned (FlightAggregator_searchFlights a now_get now_set params flt) =
      Array_sort compare_flights (deduplicate ?flights)"
    by (simp add: m)
  have s: "set (Array_sort compare_flights (deduplicate ?flights)) = set (deduplicate ?flights)"
    by (simp add: sort_flights)
  have sub: "set (Array_sort compare_flights (deduplicate ?flights)) \<subseteq> set ?flights"
    unfolding s by (rule deduplicate_subset)
  have cov: "\<forall>f\<in>set ?flights. \<exists>e\<in>set (Array_sort compare_flights (deduplicate ?flights)).
      dedupe_key e = dedupe_key f \<and> price e \<le> price f"
    unfolding s using deduplicate_covers_cheaper by blast
  have emp: "Array_sort compare_flights (deduplicate ?flights) = []"
    if "\<forall>p\<in>set (getActiveProviders a flt). \<exists>reason. searchFlights p params = Rejected reason"
    using successful_offers_all_rejected [OF that]
    by (simp add: deduplicate_def Map_values_def Array_sort_def)
  show ?thesis
    unfolding r using sub cov emp by (simp add: m)
qed

lemma one_fails_result:
  "returned (FlightAggregator_searchFlights one_fails 0 5 krk_bcn None) =
     [wizz_offer, lot_offer ''serpapi'' 390 180] \<and>
   invoked (FlightAggregator_searchFlights one_fails 0 5 krk_bcn None) =
     [''kiwi'', ''amadeus'', ''serpapi''] \<and>
   logged (FlightAggregator_searchFlights one_fails 0 5 krk_bcn None) =
     [''amadeus: Error: Amadeus API error: 500'']"
proof -
  have h: "fst (TTLCache_get (cache_flights one_fails) 0 (search_key krk_bcn None)) = None"
    unfolding one_fails_def by (rule empty_cache_miss)
  show ?thesis
    unfolding search_miss [OF h]
    by (simp add: one_fails_def FlightAggregator_new_def getActiveProviders_def
        search_provider_def successful_offers_def failure_lines_def deduplicate_def
        deduplicate_step_def Map_get_def Map_set_def Map_values_def dedupe_key_def
        lot_offer_def wizz_offer_def Array_sort_def compare_flights_def)
qed

lemma all_fail_rejected:
  "\<forall>p\<in>set (getActiveProviders all_fail None). \<exists>reason. searchFlights p krk_bcn = Rejected reason"
  by (simp add: all_fail_def FlightAggregator_new_def getActiveProviders_def search_provider_def)

theorem search_tolerates_failed_sources_witness:
  "fst (TTLCache_get (cache_flights one_fails) 0 (search_key krk_bcn None)) = None \<and>
   returned (FlightAggregator_searchFlights one_fails 0 5 krk_bcn None) =
     Array_sort compare_flights
       (deduplicate (successful_offers (getActiveProviders one_fails None) krk_bcn)) \<and>
   returned (FlightAggregator_searchFlights one_fails 0 5 krk_bcn None) =
     [wizz_offer, lot_offer ''serpapi'' 390 180] \<and>
   logged (FlightAggregator_searchFlights one_fails 0 5 krk_bcn None) =
     [''amadeus: Error: Amadeus API error: 500''] \<and>
   fst (TTLCache_get (cache_flights all_fail) 0 (search_key krk_bcn None)) = None \<and>
   returned (FlightAggregator_searchFlights all_fail 0 5 krk_bcn None) = []"
proof -
  have h1: "fst (TTLCache_get (cache_flights one_fails) 0 (search_key krk_bcn None)) = None"
    unfolding one_fails_def by (rule empty_cache_miss)
  have h2: "fst (TTLCache_get (cache_flights all_fail) 0 (search_key krk_bcn None)) = None"
    unfolding all_fail_def by (rule empty_cache_miss)
  note t1 = search_tolerates_failed_sources [OF h1, of 5]
  note t2 = search_tolerates_failed_sources [OF h2, of 5]
  have a: "returned (FlightAggregator_searchFlights one_fails 0 5 krk_bcn None) =
     Array_sort compare_flights
       (deduplicate (successful_offers (getActiveProviders one_fails None) krk_bcn))"
    using t1 by (rule conjunct1)
  have r: "returned (FlightAggregator_searchFlights one_fails 0 5 krk_bcn None) =
     [wizz_offer, lot_offer ''serpapi'' 390 180]"
    and l: "logged (FlightAggregator_searchFlights one_fails 0 5 krk_bcn None) =
     [''amadeus: Error: Amadeus API error: 500'']"
    using one_fails_result by blast+
  have e: "returned (FlightAggregator_searchFlights all_fail 0 5 krk_bcn None) = []"
    using t2 all_fail_rejected by blast
  show ?thesis by (intro conjI h1 h2 a r l e)
qed

section \<open>Repeating a search\<close>

text \<open>
  Claim C4. \<^verbatim>\<open>TTLCache.get\<close> returns a value exactly when the key has an entry and the
  clock is at most its expiry, and that value is the stored one; on an entry past its
  expiry it removes the entry. After a call of \<^verbatim>\<open>searchFlights\<close> the cache holds the
  returned list under the key of the request, expiring one TTL after the moment it was
  stored if the call computed it. A second call with the same request and filter made
  no later than the expiry returns the same list, invokes no provider (whatever the
  providers would answer) and leaves the aggregator as it was; made later, it invokes
  the active providers and returns the list computed from their answers.
\<close>

theorem repeated_search_served_from_cache_until_expiry:
  fixes a :: FlightAggregator and c :: "'v TTLCache" and t_get t_set :: int
    and params :: json and flt :: "FlightSource list option"
  defines "first \<equiv> FlightAggregator_searchFlights a t_get t_set params flt"
  shows
    "(\<forall>v. (fst (TTLCache_get c now k) = Some v) =
          (\<exists>e. store c k = Some e \<and> now \<le> expires_at e \<and> entry_value e = v)) \<and>
     (\<forall>e. store c k = Some e \<and> expires_at e < now \<longrightarrow>
          TTLCache_get c now k = (None, c\<lparr>store := (store c)(k := None)\<rparr>)) \<and>
     (\<exists>e. store (cache_flights (after first)) (search_key params flt) = Some e \<and>
          entry_value e = returned first \<and>
          (fst (TTLCache_get (cache_flights a) t_get (search_key params flt)) = None \<longrightarrow>
             expires_at e = t_set + default_ttl_ms (cache_flights a)) \<and>
          (\<forall>ps u_get u_set. u_get \<le> expires_at e \<longrightarrow>
             FlightAggregator_searchFlights ((after first)\<lparr>providers := ps\<rparr>) u_get u_set params flt =
               \<lparr>returned = returned first, invoked = [], logged = [],
                after = (after first)\<lparr>providers := ps\<rparr>\<rparr>) \<and>
          (\<forall>ps u_get u_set. expires_at e < u_get \<longrightarrow>
             returned (FlightAggregator_searchFlights
                         ((after first)\<lparr>providers := ps\<rparr>) u_get u_set params flt) =
               Array_sort compare_flights (deduplicate (successful_offers
                 (getActiveProviders ((after first)\<lparr>providers := ps\<rparr>) flt) params)) \<and>
             invoked (FlightAggregator_searchFlights
                         ((after first)\<lparr>providers := ps\<rparr>) u_get u_set params flt) =
               map name (getActiveProviders ((after first)\<lparr>providers := ps\<rparr>) flt)))"
proof -
  obtain e where e: "store (cache_flights (after first)) (search_key params flt) = Some e"
    "entry_value e = returned first"
    "if fst (TTLCache_get (cache_flights a) t_get (search_key params flt)) = None
     then expires_at e = t_set + default_ttl_ms (cache_flights a)
     else t_get \<le> expires_at e \<and> after first = a"
    unfolding first_def using search_leaves_entry [of a t_get t_set params flt] by blast
  have live: "FlightAggregator_searchFlights ((after first)\<lparr>providers := ps\<rparr>) u_get u_set params flt =
               \<lparr>returned = returned first, invoked = [], logged = [],
                after = (after first)\<lparr>providers := ps\<rparr>\<rparr>"
    if "u_get \<le> expires_at e" for ps u_get u_set
    using search_again_live [OF e(1) that] e(2) by simp
  have stale: "returned (FlightAggregator_searchFlights
                         ((after first)\<lparr>providers := ps\<rparr>) u_get u_set params flt) =
               Array_sort compare_flights (deduplicate (successful_offers
                 (getActiveProviders ((after first)\<lparr>providers := ps\<rparr>) flt) params)) \<and>
             invoked (FlightAggregator_searchFlights
                         ((after first)\<lparr>providers := ps\<rparr>) u_get u_set params flt) =
               map name (getActiveProviders ((after first)\<lparr>providers := ps\<rparr>) flt)"
    if "expires_at e < u_get" for ps u_get u_set
    using search_again_stale [OF e(1) that, of ps u_set] by simp
  have ex: "expires_at e = t_set + default_ttl_ms (cache_flights a)"
    if "fst (TTLCache_get (cache_flights a) t_get (search_key params flt)) = None"
    using e(3) that by simp
  have third: "\<exists>e. store (cache_flights (after first)) (search_key params flt) = Some e \<and>
          entry_value e = returned first \<and>
          (fst (TTLCache_get (cache_flights a) t_get (search_key params flt)) = None \<longrightarrow>
             expires_at e = t_set + default_ttl_ms (cache_flights a)) \<and>
          (\<forall>ps u_get u_set. u_get \<le> expires_at e \<longrightarrow>
             FlightAggregator_searchFlights ((after first)\<lparr>providers := ps\<rparr>) u_get u_set params flt =
               \<lparr>returned = returned first, invoked = [], logged = [],
                after = (after first)\<lparr>providers := ps\<rparr>\<rparr>) \<and>
          (\<forall>ps u_get u_set. expires_at e < u_get \<longrightarrow>
             returned (FlightAggregator_searchFlights
                         ((after first)\<lparr>providers := ps\<rparr>) u_get u_set params flt) =
               Array_sort compare_flights (deduplicate (successful_offers
                 (getActiveProviders ((after first)\<lparr>providers := ps\<rparr>) flt) params)) \<and>
             invoked (FlightAggregator_searchFlights
                         ((after first)\<lparr>providers := ps\<rparr>) u_get u_set params flt) =
               map name (getActiveProviders ((after first)\<lparr>providers := ps\<rparr>) flt))"
    by (intro exI [of _ e] conjI allI impI) (simp_all add: e(1,2) ex live stale)
  have fst_part: "\<forall>v. (fst (TTLCache_get c now k) = Some v) =
          (\<exists>e. store c k = Some e \<and> now \<le> expires_at e \<and> entry_value e = v)"
    by (simp add: TTLCache_get_Some_iff)
  have snd_part: "\<forall>e. store c k = Some e \<and> expires_at e < now \<longrightarrow>
          TTLCache_get c now k = (None, c\<lparr>store := (store c)(k := None)\<rparr>)"
    by (simp add: TTLCache_get_stale)
  show ?thesis using fst_part snd_part third by (intro conjI)
qed


theorem repeated_search_served_from_cache_until_expiry_witness:
  "fst (TTLCache_get (cache_flights all_succeed) 0 (search_key krk_bcn None)) = None \<and>
   FlightAggregator_searchFlights
     ((after (FlightAggregator_searchFlights all_succeed 0 5 krk_bcn None))
        \<lparr>providers := providers all_fail\<rparr>) 300005 300010 krk_bcn None =
     \<lparr>returned = [wizz_offer, lot_offer ''amadeus'' 390 185], invoked = [], logged = [],
      after = (after (FlightAggregator_searchFlights all_succeed 0 5 krk_bcn None))
        \<lparr>providers := providers all_fail\<rparr>\<rparr> \<and>
   returned (FlightAggregator_searchFlights
     ((after (FlightAggregator_searchFlights all_succeed 0 5 krk_bcn None))
        \<lparr>providers := providers all_fail\<rparr>) 300006 300010 krk_bcn None) = [] \<and>
   invoked (FlightAggregator_searchFlights
     ((after (FlightAggregator_searchFlights all_succeed 0 5 krk_bcn None))
        \<lparr>providers := providers all_fail\<rparr>) 300006 300010 krk_bcn None) =
     [''kiwi'', ''amadeus'']"
proof -
  let ?F = "FlightAggregator_searchFlights all_succeed 0 5 krk_bcn None"
  let ?a = "(after ?F)\<lparr>providers := providers all_fail\<rparr>"
  have h: "fst (TTLCache_get (cache_flights all_succeed) 0 (search_key krk_bcn None)) = None"
    unfolding all_succeed_def by (rule empty_cache_miss)
  note t = repeated_search_served_from_cache_until_expiry
    [where a = all_succeed and t_get = 0 and t_set = 5 and params = krk_bcn and flt = None,
     THEN conjunct2, THEN conjunct2]
  from t show ?thesis
  proof (elim exE conjE)
    fix e
    assume ex: "fst (TTLCache_get (cache_flights all_succeed) 0 (search_key krk_bcn None)) = None \<longrightarrow>
             expires_at e = 5 + default_ttl_ms (cache_flights all_succeed)"
    assume live: "\<forall>ps u_get u_set. u_get \<le> expires_at e \<longrightarrow>
             FlightAggregator_searchFlights ((after ?F)\<lparr>providers := ps\<rparr>) u_get u_set krk_bcn None =
               \<lparr>returned = returned ?F, invoked = [], logged = [],
                after = (after ?F)\<lparr>providers := ps\<rparr>\<rparr>"
    assume stale: "\<forall>ps u_get u_set. expires_at e < u_get \<longrightarrow>
             returned (FlightAggregator_searchFlights
                         ((after ?F)\<lparr>providers := ps\<rparr>) u_get u_set krk_bcn None) =
               Array_sort compare_flights (deduplicate (successful_offers
                 (getActiveProviders ((after ?F)\<lparr>providers := ps\<rparr>) None) krk_bcn)) \<and>
             invoked (FlightAggregator_searchFlights
                         ((after ?F)\<lparr>providers := ps\<rparr>) u_get u_set krk_bcn None) =
               map name (getActiveProviders ((after ?F)\<lparr>providers := ps\<rparr>) None)"
    have "default_ttl_ms (cache_flights all_succeed) = 300000"
      by (simp add: all_succeed_def FlightAggregator_new_def TTLCache_new_def)
    then have exp: "expires_at e = 300005" using ex h by simp
    have l: "FlightAggregator_searchFlights ?a 300005 300010 krk_bcn None =
       \<lparr>returned = [wizz_offer, lot_offer ''amadeus'' 390 185], invoked = [], logged = [],
        after = ?a\<rparr>"
      using live [rule_format, of 300005 "providers all_fail" 300010] exp
      by (simp add: all_succeed_result)
    have act: "getActiveProviders ?a None = providers all_fail"
      by (simp add: getActiveProviders_def all_fail_def FlightAggregator_new_def search_provider_def)
    have st: "returned (FlightAggregator_searchFlights ?a 300006 300010 krk_bcn None) =
        Array_sort compare_flights (deduplicate (successful_offers (providers all_fail) krk_bcn))"
      and iv: "invoked (FlightAggregator_searchFlights ?a 300006 300010 krk_bcn None) =
        map name (providers all_fail)"
      using stale [rule_format, of 300006 "providers all_fail" 300010] exp act by simp_all
    have r: "returned (FlightAggregator_searchFlights ?a 300006 300010 krk_bcn None) = []"
      unfolding st
      by (simp add: all_fail_def FlightAggregator_new_def search_provider_def
          successful_offers_def deduplicate_def Map_values_def Array_sort_def)
    have i: "invoked (FlightAggregator_searchFlights ?a 300006 300010 krk_bcn None) =
        [''kiwi'', ''amadeus'']"
      unfolding iv by (simp add: all_fail_def FlightAggregator_new_def search_provider_def)
    show ?thesis by (intro conjI h l r i)
  qed
qed

section \<open>Exploring destinations\<close>

lemma explore_miss:
  assumes "fst (TTLCache_get (cache_destinations a) now_get (explore_key params flt)) = None"
  shows "returned (FlightAggregator_exploreDestinations a now_get now_set params flt) =
     Array_slice0
       (sort_key e_price
          (map snd (foldl (cheapest_step e_destination e_price) []
             (successful_destinations (getActiveProviders a flt) params))))
       (params_limit params)"
  using assms
  by (simp add: FlightAggregator_exploreDestinations_def Let_def settle_destinations_eq
      byDest_step_cheapest sort_destinations Map_values_def del: not_None_eq)

lemma empty_destination_cache_miss:
  "fst (TTLCache_get (cache_destinations (FlightAggregator_new ps)) now key) = None"
  by (simp add: FlightAggregator_new_def TTLCache_new_def TTLCache_get_def)

lemma distinct_map_sort_key:
  "distinct (map f (sort_key k xs)) = distinct (map f xs)"
  by (simp add: distinct_map)

lemma distinct_map_take: "distinct (map f xs) \<Longrightarrow> distinct (map f (take m xs))"
  by (simp add: take_map [symmetric])

lemma sorted_map_take: "sorted (map f xs) \<Longrightarrow> sorted (map f (take m xs))"
  by (simp add: take_map [symmetric] sorted_wrt_take)

lemma sorted_map_take_drop:
  assumes "sorted (map f xs)" and "x \<in> set (take m xs)" and "y \<in> set (drop m xs)"
  shows "f x \<le> f y"
proof -
  have "sorted (map f (take m xs) @ map f (drop m xs))"
    using assms(1) by (simp add: map_append [symmetric] del: map_append)
  then show ?thesis using assms(2,3) by (auto simp: sorted_append)
qed

lemma explore_two:
  "returned (FlightAggregator_exploreDestinations explorers 0 5 (explore_params 2) None) =
     [dest_offer ''ryanair'' ''BCN'' 200, dest_offer ''kiwi'' ''FCO'' 250]"
  by (simp add: FlightAggregator_exploreDestinations_def Let_def explorers_def
      FlightAggregator_new_def TTLCache_new_def TTLCache_get_def getActiveProviders_def
      explore_provider_def search_provider_def byDest_step_def Map_get_def Map_set_def
      Map_values_def dest_offer_def Array_sort_def compare_destinations_def
      Array_slice0_def params_limit_def explore_params_def)

text \<open>
  Claim C8 says that \<^verbatim>\<open>exploreDestinations\<close> returns at most \<^verbatim>\<open>limit\<close> offers for every
  request. The result is cut with \<^verbatim>\<open>slice(0, params.limit)\<close>, and a negative end counts
  from the end of the array: with \<^verbatim>\<open>limit = -1\<close> and three destinations found, two
  offers are returned. (The schema of the tool accepts any number as \<^verbatim>\<open>limit\<close>.)
\<close>

theorem explore_negative_limit_exceeds_it:
  "params_limit (explore_params (- 1)) = Some (- 1) \<and>
   returned (FlightAggregator_exploreDestinations explorers 0 5 (explore_params (- 1)) None) =
     [dest_offer ''ryanair'' ''BCN'' 200, dest_offer ''kiwi'' ''FCO'' 250] \<and>
   \<not> int (length (returned
       (FlightAggregator_exploreDestinations explorers 0 5 (explore_params (- 1)) None)))
       \<le> - 1"
  by (simp add: FlightAggregator_exploreDestinations_def Let_def explorers_def
      FlightAggregator_new_def TTLCache_new_def TTLCache_get_def getActiveProviders_def
      explore_provider_def search_provider_def byDest_step_def Map_get_def Map_set_def
      Map_values_def dest_offer_def Array_sort_def compare_destinations_def
      Array_slice0_def params_limit_def explore_params_def)

text \<open>
  Claim C8, amended: for every request whose \<^verbatim>\<open>limit\<close> is not negative. When
  \<^verbatim>\<open>exploreDestinations\<close> computes its result, it returns at most \<^verbatim>\<open>limit\<close> offers, no
  destination twice, sorted by price; each returned offer is the first cheapest for
  its destination among all offers of the providers that succeeded; and the cut comes
  after deduplication and sort: the returned list is the front of a list that
  represents every destination found at its cheapest price, nothing returned costs
  more than anything cut off, and something is cut off only when \<^verbatim>\<open>limit\<close> offers are
  returned.
\<close>

theorem explore_cheapest_destinations_up_to_limit:
  assumes "fst (TTLCache_get (cache_destinations a) now_get (explore_key params flt)) = None"
    and "params_limit params = Some n" and "0 \<le> n"
  shows "int (length (returned (FlightAggregator_exploreDestinations a now_get now_set params flt)))
           \<le> n \<and>
     distinct (map e_destination
       (returned (FlightAggregator_exploreDestinations a now_get now_set params flt))) \<and>
     (\<forall>e\<in>set (returned (FlightAggregator_exploreDestinations a now_get now_set params flt)).
        first_cheapest e_destination e_price
          (successful_destinations (getActiveProviders a flt) params) e) \<and>
     sorted (map e_price
       (returned (FlightAggregator_exploreDestinations a now_get now_set params flt))) \<and>
     (\<exists>rest.
        (\<forall>d\<in>set (successful_destinations (getActiveProviders a flt) params).
           \<exists>s\<in>set (returned (FlightAggregator_exploreDestinations a now_get now_set params flt)
                     @ rest).
             e_destination s = e_destination d \<and> e_price s \<le> e_price d) \<and>
        (\<forall>k\<in>set (returned (FlightAggregator_exploreDestinations a now_get now_set params flt)).
           \<forall>g\<in>set rest. e_price k \<le> e_price g) \<and>
        (rest \<noteq> [] \<longrightarrow>
           int (length (returned
             (FlightAggregator_exploreDestinations a now_get now_set params flt))) = n))"
proof -
  let ?D = "successful_destinations (getActiveProviders a flt) params"
  let ?M = "foldl (cheapest_step e_destination e_price) [] ?D"
  let ?S = "sort_key e_price (map snd ?M)"
  let ?m = "nat n"
  have out: "returned (FlightAggregator_exploreDestinations a now_get now_set params flt) =
      take ?m ?S"
    using assms(2,3) by (simp add: explore_miss [OF assms(1)] Array_slice0_def)
  note inv = cheapest_inv_foldl [of e_destination e_price ?D]
  have len: "int (length (take ?m ?S)) \<le> n"
    using assms(3) by simp
  have "distinct (map e_destination (map snd ?M))"
    by (rule cheapest_inv_values(1) [OF inv])
  then have "distinct (map e_destination ?S)"
    by (simp only: distinct_map_sort_key)
  then have dist: "distinct (map e_destination (take ?m ?S))"
    by (rule distinct_map_take)
  have fc: "first_cheapest e_destination e_price ?D e" if "e \<in> set ?S" for e
    using that cheapest_inv_values(2) [OF inv, of e] by simp
  have fc': "\<forall>e\<in>set (take ?m ?S). first_cheapest e_destination e_price ?D e"
    using fc in_set_takeD by fast
  have srt: "sorted (map e_price ?S)" by (rule sorted_sort_key)
  then have srt': "sorted (map e_price (take ?m ?S))" by (rule sorted_map_take)
  have cov: "\<exists>s\<in>set (take ?m ?S @ drop ?m ?S).
      e_destination s = e_destination d \<and> e_price s \<le> e_price d" if d: "d \<in> set ?D" for d
  proof -
    obtain s where s: "s \<in> set (map snd ?M)" "e_destination s = e_destination d"
      using cheapest_inv_values(3) [OF inv d] by blast
    then have "s \<in> set ?S" by simp
    moreover have "e_price s \<le> e_price d"
      using fc [OF \<open>s \<in> set ?S\<close>] d s(2) by (simp add: first_cheapest_def)
    ultimately show ?thesis using s(2) by auto
  qed
  have cut: "\<forall>k\<in>set (take ?m ?S). \<forall>g\<in>set (drop ?m ?S). e_price k \<le> e_price g"
    using sorted_map_take_drop [OF srt] by blast
  have full: "int (length (take ?m ?S)) = n" if "drop ?m ?S \<noteq> []"
    using that assms(3) by simp
  have "(\<forall>d\<in>set ?D. \<exists>s\<in>set (take ?m ?S @ drop ?m ?S).
           e_destination s = e_destination d \<and> e_price s \<le> e_price d) \<and>
        (\<forall>k\<in>set (take ?m ?S). \<forall>g\<in>set (drop ?m ?S). e_price k \<le> e_price g) \<and>
        (drop ?m ?S \<noteq> [] \<longrightarrow> int (length (take ?m ?S)) = n)"
    using cov cut full by blast
  then have rest: "\<exists>rest. (\<forall>d\<in>set ?D. \<exists>s\<in>set (take ?m ?S @ rest).
           e_destination s = e_destination d \<and> e_price s \<le> e_price d) \<and>
        (\<forall>k\<in>set (take ?m ?S). \<forall>g\<in>set rest. e_price k \<le> e_price g) \<and>
        (rest \<noteq> [] \<longrightarrow> int (length (take ?m ?S)) = n)"
    by (rule exI [of _ "drop ?m ?S"])
  show ?thesis unfolding out by (intro conjI len dist fc' srt' rest)
qed

theorem explore_cheapest_destinations_up_to_limit_witness:
  "fst (TTLCache_get (cache_destinations explorers) 0 (explore_key (explore_params 2) None))
     = None \<and>
   params_limit (explore_params 2) = Some 2 \<and> (0::int) \<le> 2 \<and>
   int (length (returned
     (FlightAggregator_exploreDestinations explorers 0 5 (explore_params 2) None))) \<le> 2 \<and>
   distinct (map e_destination (returned
     (FlightAggregator_exploreDestinations explorers 0 5 (explore_params 2) None))) \<and>
   sorted (map e_price (returned
     (FlightAggregator_exploreDestinations explorers 0 5 (explore_params 2) None))) \<and>
   first_cheapest e_destination e_price
     (successful_destinations (getActiveProviders explorers None) (explore_params 2))
     (dest_offer ''ryanair'' ''BCN'' 200)"
proof -
  have h1: "fst (TTLCache_get (cache_destinations explorers) 0
      (explore_key (explore_params 2) None)) = None"
    unfolding explorers_def by (rule empty_destination_cache_miss)
  have h2: "params_limit (explore_params 2) = Some 2"
    by (simp add: params_limit_def explore_params_def)
  have h3: "(0::int) \<le> 2" by simp
  note t = explore_cheapest_destinations_up_to_limit [OF h1 h2 h3, of 5]
  have a: "int (length (returned
     (FlightAggregator_exploreDestinations explorers 0 5 (explore_params 2) None))) \<le> 2"
    using t by (rule conjunct1)
  have b: "distinct (map e_destination (returned
     (FlightAggregator_exploreDestinations explorers 0 5 (explore_params 2) None)))"
    using t by blast
  have c: "sorted (map e_price (returned
     (FlightAggregator_exploreDestinations explorers 0 5 (explore_params 2) None)))"
    using t by blast
  have "\<forall>e\<in>set (returned
       (FlightAggregator_exploreDestinations explorers 0 5 (explore_params 2) None)).
        first_cheapest e_destination e_price
          (successful_destinations (getActiveProviders explorers None) (explore_params 2)) e"
    using t by blast
  then have d: "first_cheapest e_destination e_price
     (successful_destinations (getActiveProviders explorers None) (explore_params 2))
     (dest_offer ''ryanair'' ''BCN'' 200)"
    unfolding explore_two by simp
  show ?thesis by (intro conjI h1 h2 h3 a b c d)
qed


end
